theory Spec2Isabelle
  imports Complex_Main "HOL-Library.Char_ord" "HOL-Library.List_Lexorder" "HOL-Library.Multiset"
begin

section \<open>Python strings\<close>

text \<open>
  A Python \<open>str\<close> is a sequence of code points. The model reads a \<^typ>\<open>char\<close> as the code
  point of the same number, so a \<^typ>\<open>string\<close> is a Python string over U+0000..U+00FF
  (every character the patterns of \<open>normalizar_nome_tabela\<close> name lies in that range).
\<close>

definition code :: "char \<Rightarrow> nat" where
  "code c = of_char c"

text \<open>
  \<open>str.lower()\<close> on U+0000..U+00FF: the upper-case letters are A..Z and U+00C0..U+00DE
  without the multiplication sign U+00D7; each maps to the code point 32 above it.
\<close>

definition py_lower_char :: "char \<Rightarrow> char" where
  "py_lower_char c =
     (if (65 \<le> code c \<and> code c \<le> 90) \<or> (192 \<le> code c \<and> code c \<le> 222 \<and> code c \<noteq> 215)
      then char_of (code c + 32) else c)"

definition py_lower :: "string \<Rightarrow> string" where
  "py_lower s = map py_lower_char s"

text \<open>\<open>s.strip(chars)\<close>, with the stripped characters given as a predicate.\<close>

definition py_strip :: "(char \<Rightarrow> bool) \<Rightarrow> string \<Rightarrow> string" where
  "py_strip P s = rev (dropWhile P (rev (dropWhile P s)))"

text \<open>\<open>str(n)\<close> for an integer: decimal digits, with a minus sign when negative.\<close>

fun py_str_nat :: "nat \<Rightarrow> string" where
  "py_str_nat n =
     (if n < 10 then [char_of (48 + n)] else py_str_nat (n div 10) @ [char_of (48 + n mod 10)])"

declare py_str_nat.simps [simp del]

definition py_str_int :: "int \<Rightarrow> string" where
  "py_str_int i = (if i < 0 then CHR ''-'' # py_str_nat (nat (- i)) else py_str_nat (nat i))"

text \<open>
  \<open>s.replace(old, new)\<close> for a non-empty \<open>old\<close> (the only use the code makes of it):
  the occurrences are replaced from left to right, without overlap.
\<close>

function py_replace :: "string \<Rightarrow> string \<Rightarrow> string \<Rightarrow> string" where
  "py_replace old new s =
     (if old = [] \<or> s = [] then s
      else if take (length old) s = old then new @ py_replace old new (drop (length old) s)
      else hd s # py_replace old new (tl s))"
  by pat_completeness auto
termination
  by (relation "measure (\<lambda>(old, new, s). length s)") auto

declare py_replace.simps [simp del]

text \<open>\<open>s.split(sep)\<close> for a separator of one character: never an empty list.\<close>

fun py_split :: "char \<Rightarrow> string \<Rightarrow> string list" where
  "py_split sep [] = [[]]"
| "py_split sep (c # cs) =
     (if c = sep then [] # py_split sep cs
      else (case py_split sep cs of p # ps \<Rightarrow> (c # p) # ps | [] \<Rightarrow> [[c]]))"

text \<open>The white space \<open>str.strip()\<close> removes, on U+0000..U+00FF.\<close>

definition py_isspace :: "char \<Rightarrow> bool" where
  "py_isspace c = (code c \<in> set [9, 10, 11, 12, 13, 28, 29, 30, 31, 32, 0x85, 0xA0])"

text \<open>
  \<open>int(s)\<close> of a string, \<open>None\<close> for a \<open>ValueError\<close>: white space around (without the
  separators U+001C..U+001F, which \<open>int\<close> does not skip), an optional sign, then decimal
  digits with single underscores between them. The limit on the number of digits
  (4300 by default in recent versions) is not modelled; a table name is far shorter.
\<close>

definition int_space :: "char \<Rightarrow> bool" where
  "int_space c = (code c \<in> set [9, 10, 11, 12, 13, 32, 0x85, 0xA0])"

definition is_digit :: "char \<Rightarrow> bool" where
  "is_digit c = (48 \<le> code c \<and> code c \<le> 57)"

fun digits_ok :: "string \<Rightarrow> bool" where
  "digits_ok [] = False"
| "digits_ok [c] = is_digit c"
| "digits_ok (c # d # cs) =
     (is_digit c \<and> (if d = CHR ''_'' then digits_ok cs else digits_ok (d # cs)))"

definition decimal :: "string \<Rightarrow> nat" where
  "decimal ds = foldl (\<lambda>n c. 10 * n + (code c - 48)) 0 (filter is_digit ds)"

definition py_int :: "string \<Rightarrow> int option" where
  "py_int s =
     (let t = py_strip int_space s;
          neg = (t \<noteq> [] \<and> hd t = CHR ''-'');
          ds = (if t \<noteq> [] \<and> (hd t = CHR ''-'' \<or> hd t = CHR ''+'') then tl t else t)
      in if digits_ok ds then Some (if neg then - int (decimal ds) else int (decimal ds))
         else None)"

section \<open>Schema provisioner: the raw table name of a route (routes.py)\<close>

text \<open>\<open>re.sub('[...]', rep, s)\<close> for a class of single code points: a character-wise map.\<close>

definition re_sub_class :: "nat list \<Rightarrow> char \<Rightarrow> string \<Rightarrow> string" where
  "re_sub_class cls rep s = map (\<lambda>c. if code c \<in> set cls then rep else c) s"

definition is_az09us :: "char \<Rightarrow> bool" where
  "is_az09us c =
     ((97 \<le> code c \<and> code c \<le> 122) \<or> (48 \<le> code c \<and> code c \<le> 57) \<or> c = CHR ''_'')"

text \<open>\<open>re.sub('[^a-z0-9_]', '_', s)\<close>.\<close>

definition re_sub_not_az09us :: "string \<Rightarrow> string" where
  "re_sub_not_az09us s = map (\<lambda>c. if is_az09us c then c else CHR ''_'') s"

text \<open>\<open>re.sub('_+', '_', s)\<close>: every run of underscores becomes one underscore.\<close>

fun re_sub_underscores :: "string \<Rightarrow> string" where
  "re_sub_underscores (a # b # cs) =
     (if a = CHR ''_'' \<and> b = CHR ''_'' then re_sub_underscores (b # cs)
      else a # re_sub_underscores (b # cs))"
| "re_sub_underscores cs = cs"

text \<open>No two underscores stand side by side.\<close>

fun no_double :: "string \<Rightarrow> bool" where
  "no_double (a # b # cs) = (\<not> (a = CHR ''_'' \<and> b = CHR ''_'') \<and> no_double (b # cs))"
| "no_double cs = True"

definition normalizar_nome_tabela :: "string \<Rightarrow> string" where
  "normalizar_nome_tabela nome0 =
     (let nome = py_lower nome0;
          nome = re_sub_class [0xE0, 0xE1, 0xE2, 0xE3, 0xE4, 0xE5] CHR ''a'' nome;
          nome = re_sub_class [0xE8, 0xE9, 0xEA, 0xEB] CHR ''e'' nome;
          nome = re_sub_class [0xEC, 0xED, 0xEE, 0xEF] CHR ''i'' nome;
          nome = re_sub_class [0xF2, 0xF3, 0xF4, 0xF5, 0xF6] CHR ''o'' nome;
          nome = re_sub_class [0xF9, 0xFA, 0xFB, 0xFC] CHR ''u'' nome;
          nome = re_sub_class [0xE7] CHR ''c'' nome;
          nome = re_sub_not_az09us nome;
          nome = re_sub_underscores nome
      in py_strip (\<lambda>c. c = CHR ''_'') nome)"

text \<open>
  The name \<open>criar_tabela_raw_rota\<close> computes, \<open>f"raw_{cliente_id}_{nome_normalizado}"\<close>;
  the tenant id is an integer. The statements the function then sends (the lookup in
  \<open>information_schema.tables\<close> and the DDL) are answered by the storage and are not part
  of this development.
\<close>

definition nome_tabela_raw :: "int \<Rightarrow> string \<Rightarrow> string" where
  "nome_tabela_raw cliente_id nome_rota =
     ''raw_'' @ py_str_int cliente_id @ ''_'' @ normalizar_nome_tabela nome_rota"

section \<open>Raw storage: insert-or-ignore keyed on the content hash\<close>

text \<open>
  A raw table (\<open>criar_tabela_raw_rota\<close> in routes.py) has the columns
  \<open>payload JSONB NOT NULL\<close> and \<open>hash_conteudo TEXT\<close> (nullable) under the constraint
  \<open>UNIQUE (hash_conteudo)\<close>. The generated columns (id, timestamps) are never written by
  the workers and are left out. A row is the pair the writer inserts.
\<close>

record raw_row =
  payload :: string
  hash_conteudo :: "string option"

type_synonym raw_table = "raw_row list"

text \<open>The non-null hashes stored in a table.\<close>

definition hashes :: "raw_table \<Rightarrow> string set" where
  "hashes t = {h. Some h \<in> hash_conteudo ` set t}"

text \<open>The rows that carry a hash, in table order.\<close>

definition hashed_rows :: "raw_table \<Rightarrow> raw_row list" where
  "hashed_rows t = filter (\<lambda>r. hash_conteudo r \<noteq> None) t"

text \<open>The uniqueness constraint: NULL hashes never conflict, equal non-null hashes do.\<close>

definition uq_hash :: "raw_table \<Rightarrow> bool" where
  "uq_hash t = distinct (map hash_conteudo (hashed_rows t))"

text \<open>
  What the storage does with one turn of the writer is not decided by the source (the
  table may be missing, the payload invalid for the column, the connection lost): the
  statement is taken and committed, \<open>cur.execute\<close> raises, or \<open>conn.commit\<close> raises.
\<close>

datatype db_answer = Accepted | ExecuteFails | CommitFails

text \<open>
  \<open>INSERT INTO t (payload, hash_conteudo) VALUES (p, h) ON CONFLICT (hash_conteudo) DO NOTHING\<close>.
  A statement taken gives the table it would leave and its \<open>rowcount\<close>; \<open>None\<close> stands for
  the exception of a statement refused.
\<close>

definition insert_on_conflict_do_nothing ::
  "db_answer \<Rightarrow> raw_table \<Rightarrow> string \<Rightarrow> string \<Rightarrow> (raw_table \<times> nat) option" where
  "insert_on_conflict_do_nothing a t p h =
     (if a = ExecuteFails then None
      else if Some h \<in> hash_conteudo ` set t then Some (t, 0)
      else Some (t @ [\<lparr>payload = p, hash_conteudo = Some h\<rparr>], 1))"

text \<open>
  The body of the loop of \<open>ETLWorker._database_writer\<close> (scraps.py) for one data item
  \<open>(payload, hash_content, _)\<close>: the insert, then \<open>total_registros += 1\<close> when
  \<open>cur.rowcount > 0\<close>, then the commit. The state is the destination table (what is
  committed) and the counter. \<open>Inr\<close> is the state after a turn that went through, \<open>Inl\<close>
  the state an exception leaves: a refused statement leaves everything as it was; a
  refused commit leaves the table as it was, and the counter as the turn had set it.
\<close>

definition write_item ::
  "db_answer \<Rightarrow> raw_table \<times> nat \<Rightarrow> string \<times> string \<Rightarrow> (raw_table \<times> nat) + (raw_table \<times> nat)" where
  "write_item a s item =
     (case insert_on_conflict_do_nothing a (fst s) (fst item) (snd item) of
        None \<Rightarrow> Inl s
      | Some (t', rowcount) \<Rightarrow>
          (let n' = (if rowcount > 0 then snd s + 1 else snd s)
           in if a = CommitFails then Inl (fst s, n') else Inr (t', n')))"

text \<open>
  The writer on the data items of a queue, in FIFO order, each with the storage's answer
  to its turn: at the first exception the writer logs the error and leaves its loop
  (\<open>except Exception: registrar_erro; break\<close>), and the items behind are not written.
  The items written before are committed and stay.
\<close>

fun write_items ::
  "raw_table \<times> nat \<Rightarrow> (db_answer \<times> string \<times> string) list \<Rightarrow> raw_table \<times> nat" where
  "write_items s [] = s"
| "write_items s ((a, item) # rest) =
     (case write_item a s item of
        Inl s' \<Rightarrow> s'
      | Inr s' \<Rightarrow> write_items s' rest)"

text \<open>The content hashes of a sequence of items.\<close>

definition item_hashes :: "(db_answer \<times> string \<times> string) list \<Rightarrow> string set" where
  "item_hashes items = (\<lambda>x. snd (snd x)) ` set items"

text \<open>
  A table holding one row, a sequence of three items (one of them stored already, two
  with the same content) that the storage takes, and a second sequence over the same
  contents that the storage refuses.
\<close>

definition raw_exemplo :: raw_table where
  "raw_exemplo = [\<lparr>payload = ''{}'', hash_conteudo = Some ''ab''\<rparr>]"

definition itens_exemplo :: "(db_answer \<times> string \<times> string) list" where
  "itens_exemplo = [(Accepted, ''{}'', ''ab''), (Accepted, ''[1]'', ''cd''), (Accepted, ''[1]'', ''cd'')]"

definition itens_recusados :: "(db_answer \<times> string \<times> string) list" where
  "itens_recusados = [(ExecuteFails, ''[1]'', ''cd''), (CommitFails, ''{}'', ''ab'')]"

section \<open>Rate limiter (scraps_detalhes.py)\<close>

text \<open>
  \<open>datetime.now()\<close> is a naive local date and time with microsecond resolution; the
  model reads it as the number of microseconds since the calendar's origin, so midnight
  is a multiple of a day. \<open>time.time()\<close> is a number of seconds.
\<close>

definition DAILY_LIMIT :: nat where
  "DAILY_LIMIT = 10000"

definition DAY :: int where
  "DAY = 86400 * 1000000"

record rate_limiter =
  max_per_second :: nat
  last_request_time :: rat
  min_interval :: rat
  daily_count :: nat
  daily_reset_time :: int

text \<open>\<open>_get_next_reset_time\<close>, given its reading of the clock: 00:00 of the next day.\<close>

definition get_next_reset_time :: "int \<Rightarrow> int" where
  "get_next_reset_time now = (now div DAY + 1) * DAY"

text \<open>\<open>RateLimiter.__init__\<close>, given the clock reading of \<open>_get_next_reset_time\<close>.\<close>

definition init_rate_limiter :: "nat \<Rightarrow> int \<Rightarrow> rate_limiter" where
  "init_rate_limiter mps now =
     \<lparr>max_per_second = mps, last_request_time = 0, min_interval = 1 / of_nat mps,
      daily_count = 0, daily_reset_time = get_next_reset_time now\<rparr>"

text \<open>
  The clock readings one call of \<open>wait_if_needed\<close> can make, in program order:
  \<open>now_check\<close> in \<open>check_daily_limit\<close>, \<open>now_reset1\<close> in the \<open>_get_next_reset_time\<close> it
  calls, \<open>now_wait\<close> for \<open>wait_seconds\<close>, \<open>now_reset2\<close> in the second
  \<open>_get_next_reset_time\<close>, \<open>time_current\<close> and \<open>time_end\<close> for the two \<open>time.time()\<close>.
\<close>

record clock =
  now_check :: int
  now_reset1 :: int
  now_wait :: int
  now_reset2 :: int
  time_current :: rat
  time_end :: rat

definition check_daily_limit :: "clock \<Rightarrow> rate_limiter \<Rightarrow> bool \<times> rate_limiter" where
  "check_daily_limit ck rl =
     (let rl' = (if now_check ck \<ge> daily_reset_time rl
                 then rl\<lparr>daily_count := 0, daily_reset_time := get_next_reset_time (now_reset1 ck)\<rparr>
                 else rl)
      in (daily_count rl' \<ge> DAILY_LIMIT, rl'))"

text \<open>
  The end of \<open>wait_if_needed\<close>, from \<open>current_time = time.time()\<close> on: the pause that keeps
  \<open>min_interval\<close> between requests, then the request is recorded.
\<close>

definition record_request :: "clock \<Rightarrow> rate_limiter \<Rightarrow> bool \<times> rat \<times> rate_limiter" where
  "record_request ck rl =
     (let time_since_last = time_current ck - last_request_time rl;
          slept = (if time_since_last < min_interval rl then min_interval rl - time_since_last else 0)
      in (False, slept, rl\<lparr>last_request_time := time_end ck, daily_count := daily_count rl + 1\<rparr>))"

text \<open>
  \<open>wait_if_needed\<close>: the value returned, the time slept and the new state. The lock makes
  the body atomic among the callers of \<open>wait_if_needed\<close>; the model takes every call of
  \<open>check_daily_limit\<close> as atomic too.
\<close>

definition wait_if_needed :: "clock \<Rightarrow> rate_limiter \<Rightarrow> bool \<times> rat \<times> rate_limiter" where
  "wait_if_needed ck rl =
     (case check_daily_limit ck rl of
        (True, rl1) \<Rightarrow>
          (let wait_seconds = of_int (daily_reset_time rl1 - now_wait ck) / 1000000
           in if wait_seconds > 0 then (True, min wait_seconds 300, rl1)
              else record_request ck
                     (rl1\<lparr>daily_count := 0, daily_reset_time := get_next_reset_time (now_reset2 ck)\<rparr>))
      | (False, rl1) \<Rightarrow> record_request ck rl1)"

text \<open>
  The states of the limiter: the constructor's, and those that calls of
  \<open>check_daily_limit\<close> and \<open>wait_if_needed\<close> lead to, whatever the clock reads, and
  the assignments of \<open>executar_detalhes\<close> to \<open>max_per_second\<close> and \<open>min_interval\<close>.
\<close>

inductive reachable :: "rate_limiter \<Rightarrow> bool" where
  init: "reachable (init_rate_limiter mps now)"
| check: "reachable rl \<Longrightarrow> reachable (snd (check_daily_limit ck rl))"
| wait: "reachable rl \<Longrightarrow> reachable (snd (snd (wait_if_needed ck rl)))"
| config: "reachable rl \<Longrightarrow> reachable (rl\<lparr>max_per_second := m, min_interval := i\<rparr>)"

text \<open>
  The reset instant is crossed, as one call of \<open>wait_if_needed\<close> observes it: the clock
  has reached \<open>daily_reset_time\<close> at the test of \<open>check_daily_limit\<close>, or the quota is
  exhausted and the clock has reached it when \<open>wait_seconds\<close> is computed.
\<close>

definition crossed :: "clock \<Rightarrow> rate_limiter \<Rightarrow> bool" where
  "crossed ck rl = (daily_reset_time rl \<le> now_check ck \<or>
      (DAILY_LIMIT \<le> daily_count rl \<and> daily_reset_time rl \<le> now_wait ck))"

text \<open>A clock that reads the same instant at every reading.\<close>

definition clock_at :: "int \<Rightarrow> clock" where
  "clock_at t = \<lparr>now_check = t, now_reset1 = t, now_wait = t, now_reset2 = t,
     time_current = of_int t / 1000000, time_end = of_int t / 1000000\<rparr>"

section \<open>JSON values and the Python library\<close>

text \<open>
  The values \<open>response.json()\<close> returns. A dict is the list of its items in insertion
  order; its keys are strings and, in a value that Python built, distinct (\<open>wf_json\<close>).
  A float is read as the rational it denotes; NaN and the infinities, which are not JSON,
  are not represented.
\<close>

datatype json =
    JNull
  | JBool bool
  | JInt int
  | JFloat rat
  | JStr string
  | JList "json list"
  | JDict "(string \<times> json) list"

text \<open>The keys of every dict in the value are distinct.\<close>

fun wf_json :: "json \<Rightarrow> bool" where
  "wf_json (JList xs) = list_all wf_json xs"
| "wf_json (JDict kvs) = (distinct (map fst kvs) \<and> list_all (\<lambda>(k, v). wf_json v) kvs)"
| "wf_json _ = True"

text \<open>
  \<open>json.dumps\<close> with its defaults (\<open>ensure_ascii=True\<close>, separators \<open>", "\<close> and
  \<open>": "\<close>): a string is quoted and every code point outside \<open>' '..'~'\<close> escaped.
\<close>

definition hex_digit :: "nat \<Rightarrow> char" where
  "hex_digit n = (if n < 10 then char_of (48 + n) else char_of (87 + n))"

definition escape_char :: "char \<Rightarrow> string" where
  "escape_char c =
     (if c = CHR 0x22 then [CHR 0x5C, CHR 0x22]
      else if c = CHR 0x5C then [CHR 0x5C, CHR 0x5C]
      else if c = CHR 0x0A then [CHR 0x5C, CHR ''n'']
      else if c = CHR 0x0D then [CHR 0x5C, CHR ''r'']
      else if c = CHR 0x09 then [CHR 0x5C, CHR ''t'']
      else if c = CHR 0x0C then [CHR 0x5C, CHR ''f'']
      else if c = CHR 0x08 then [CHR 0x5C, CHR ''b'']
      else if 32 \<le> code c \<and> code c \<le> 126 then [c]
      else [CHR 0x5C, CHR ''u'', CHR ''0'', CHR ''0'', hex_digit (code c div 16), hex_digit (code c mod 16)])"

definition encode_basestring_ascii :: "string \<Rightarrow> string" where
  "encode_basestring_ascii s = CHR 0x22 # concat (map escape_char s) @ [CHR 0x22]"

text \<open>\<open>sep.join(xs)\<close>.\<close>

fun join :: "string \<Rightarrow> string list \<Rightarrow> string" where
  "join sep [] = []"
| "join sep [x] = x"
| "join sep (x # y # ys) = x @ sep @ join sep (y # ys)"

text \<open>
  \<open>json.dumps(v, sort_keys=sk)\<close>. The text of a float (\<open>float.__repr__\<close>) is the
  parameter \<open>fr\<close>. With \<open>sort_keys\<close> the items of a dict are written in the order of
  \<open>sorted(dct.items())\<close>, which for distinct keys is the order of the keys.
\<close>

fun json_dumps :: "(rat \<Rightarrow> string) \<Rightarrow> bool \<Rightarrow> json \<Rightarrow> string" where
  "json_dumps fr sk JNull = ''null''"
| "json_dumps fr sk (JBool b) = (if b then ''true'' else ''false'')"
| "json_dumps fr sk (JInt i) = py_str_int i"
| "json_dumps fr sk (JFloat r) = fr r"
| "json_dumps fr sk (JStr s) = encode_basestring_ascii s"
| "json_dumps fr sk (JList xs) = ''['' @ join '', '' (map (json_dumps fr sk) xs) @ '']''"
| "json_dumps fr sk (JDict kvs) =
     (let items = map (\<lambda>(k, v). (k, json_dumps fr sk v)) kvs;
          items = (if sk then sort_key fst items else items)
      in ''{'' @ join '', '' (map (\<lambda>(k, d). encode_basestring_ascii k @ '': '' @ d) items) @ ''}'')"

text \<open>\<open>s.encode()\<close>: the UTF-8 bytes of a string over U+0000..U+00FF.\<close>

definition py_encode :: "string \<Rightarrow> string" where
  "py_encode s = concat (map (\<lambda>c. if code c < 128 then [c]
       else [char_of (192 + code c div 64), char_of (128 + code c mod 64)]) s)"

text \<open>
  The functions of the Python library that the model takes as parameters:
  \<open>hashlib.md5(b).hexdigest()\<close>, \<open>float.__repr__\<close>, \<open>json.loads\<close> (\<open>None\<close> for a
  \<open>JSONDecodeError\<close>), \<open>str(v)\<close> of a value that is not a string, \<open>float(s)\<close>
  of a string and \<open>datetime.fromisoformat(s)\<close> (\<open>None\<close> for a \<open>ValueError\<close>; a
  date and time is read as a number of microseconds).
\<close>

record pylib =
  md5_hexdigest :: "string \<Rightarrow> string"
  float_repr :: "rat \<Rightarrow> string"
  json_loads :: "string \<Rightarrow> json option"
  str_of :: "json \<Rightarrow> string"
  float_of_str :: "string \<Rightarrow> rat option"
  fromisoformat :: "string \<Rightarrow> int option"

text \<open>
  A stand-in for the library, to run the model on concrete inputs: the digest of a text
  is the text itself, every float is written \<open>0.0\<close>, no string parses.
\<close>

definition lib0 :: pylib where
  "lib0 = \<lparr>md5_hexdigest = (\<lambda>b. b), float_repr = (\<lambda>r. ''0.0''), json_loads = (\<lambda>s. None),
     str_of = (\<lambda>v. []), float_of_str = (\<lambda>s. None), fromisoformat = (\<lambda>s. None)\<rparr>"

text \<open>
  The content hash of the extraction worker (scraps.py, \<open>ETLWorker.run\<close>):
  \<open>hashlib.md5(json.dumps(item, sort_keys=True).encode()).hexdigest()\<close>.
\<close>

definition hash_content_etl :: "pylib \<Rightarrow> json \<Rightarrow> string" where
  "hash_content_etl lib item =
     md5_hexdigest lib (py_encode (json_dumps (float_repr lib) True item))"

text \<open>
  The content hash of the detail worker (scraps_detalhes.py, \<open>_fetch_pedido_data\<close>):
  \<open>hashlib.md5(json.dumps(payload_dict, sort_keys=True).encode()).hexdigest()\<close>.
\<close>

definition hash_content_detalhes :: "pylib \<Rightarrow> json \<Rightarrow> string" where
  "hash_content_detalhes lib payload_dict =
     md5_hexdigest lib (py_encode (json_dumps (float_repr lib) True payload_dict))"

text \<open>
  \<open>b\<close> is \<open>a\<close> up to the order of the keys: the items of a dict of \<open>a\<close>, at any depth,
  may stand in another order in \<open>b\<close>; everything else is the same.
\<close>

inductive key_perm :: "json \<Rightarrow> json \<Rightarrow> bool" where
  same: "key_perm a a"
| list: "list_all2 key_perm xs ys \<Longrightarrow> key_perm (JList xs) (JList ys)"
| dict: "list_all2 (\<lambda>a b. fst a = fst b \<and> key_perm (snd a) (snd b)) kvs kvs1 \<Longrightarrow> mset kvs1 = mset kvs2
         \<Longrightarrow> key_perm (JDict kvs) (JDict kvs2)"

text \<open>Exceptions of the Python code, as values.\<close>

datatype error = TypeError | ValueError | AttributeError | OverflowError | JSONDecodeError

text \<open>The number a value is in a comparison: \<open>bool\<close> is a subtype of \<open>int\<close>.\<close>

fun num_of :: "json \<Rightarrow> rat option" where
  "num_of (JBool b) = Some (if b then 1 else 0)"
| "num_of (JInt i) = Some (of_int i)"
| "num_of (JFloat r) = Some r"
| "num_of _ = None"

text \<open>Python's \<open>==\<close> on these values.\<close>

fun py_eq :: "json \<Rightarrow> json \<Rightarrow> bool" where
  "py_eq (JList xs) (JList ys) = list_all2 py_eq xs ys"
| "py_eq (JDict a) (JDict b) =
     (length a = length b \<and>
      list_all (\<lambda>(k, v). case map_of b k of None \<Rightarrow> False | Some w \<Rightarrow> py_eq v w) a)"
| "py_eq (JStr a) (JStr b) = (a = b)"
| "py_eq JNull JNull = True"
| "py_eq a b = (case (num_of a, num_of b) of (Some x, Some y) \<Rightarrow> x = y | _ \<Rightarrow> False)"

text \<open>
  Python's \<open><\<close>: numbers by value, strings and lists lexicographically, and a
  \<open>TypeError\<close> for every other pair of operands (\<open>None\<close>, a dict, mixed types).
\<close>

fun py_lt :: "json \<Rightarrow> json \<Rightarrow> error + bool"
  and py_lt_list :: "json list \<Rightarrow> json list \<Rightarrow> error + bool" where
  "py_lt (JList xs) (JList ys) = py_lt_list xs ys"
| "py_lt (JStr a) (JStr b) = Inr (a < b)"
| "py_lt a b =
     (case (num_of a, num_of b) of (Some x, Some y) \<Rightarrow> Inr (x < y) | _ \<Rightarrow> Inl TypeError)"
| "py_lt_list [] [] = Inr False"
| "py_lt_list [] (y # ys) = Inr True"
| "py_lt_list (x # xs) [] = Inr False"
| "py_lt_list (x # xs) (y # ys) = (if py_eq x y then py_lt_list xs ys else py_lt x y)"

text \<open>The truth value of a value in a condition.\<close>

fun py_truthy :: "json \<Rightarrow> bool" where
  "py_truthy JNull = False"
| "py_truthy (JBool b) = b"
| "py_truthy (JInt i) = (i \<noteq> 0)"
| "py_truthy (JFloat r) = (r \<noteq> 0)"
| "py_truthy (JStr s) = (s \<noteq> [])"
| "py_truthy (JList xs) = (xs \<noteq> [])"
| "py_truthy (JDict kvs) = (kvs \<noteq> [])"

text \<open>\<open>d.get(k, default)\<close>; \<open>d.get(k)\<close> is \<open>dict_get d k JNull\<close>.\<close>

definition dict_get :: "(string \<times> json) list \<Rightarrow> string \<Rightarrow> json \<Rightarrow> json" where
  "dict_get d k dflt = (case map_of d k of None \<Rightarrow> dflt | Some v \<Rightarrow> v)"

section \<open>Extraction worker: the shape of a response (scraps.py, ETLWorker.run)\<close>

text \<open>
  The continuation of a page whose \<open>data\<close> is a list:
  \<open>get("next_page_url") is not None or get("current_page", 0) < get("last_page", 1)
   or get("current_page", 0) < get("total_pages", 1)\<close>, evaluated from left to right.
\<close>

definition more_pages :: "(string \<times> json) list \<Rightarrow> error + bool" where
  "more_pages d =
     (if dict_get d ''next_page_url'' JNull \<noteq> JNull then Inr True
      else case py_lt (dict_get d ''current_page'' (JInt 0)) (dict_get d ''last_page'' (JInt 1)) of
             Inl e \<Rightarrow> Inl e
           | Inr True \<Rightarrow> Inr True
           | Inr False \<Rightarrow>
               py_lt (dict_get d ''current_page'' (JInt 0)) (dict_get d ''total_pages'' (JInt 1)))"

text \<open>
  \<open>items_to_save\<close> and \<open>has_more_pages\<close> of a response, up to and including
  \<open>if not items_to_save: has_more_pages = False\<close>; an exception leaves \<open>run\<close>.
\<close>

definition response_items :: "json \<Rightarrow> error + (json list \<times> bool)" where
  "response_items response_data =
     (case (case response_data of
              JDict d \<Rightarrow>
                (case map_of d ''data'' of
                   Some (JList items) \<Rightarrow>
                     (case more_pages d of Inl e \<Rightarrow> Inl e | Inr m \<Rightarrow> Inr (items, m))
                 | _ \<Rightarrow> Inr ([response_data], False))
            | JList items \<Rightarrow> Inr (items, False)
            | _ \<Rightarrow> Inr ([], False)) of
        Inl e \<Rightarrow> Inl e
      | Inr (items_to_save, has_more_pages) \<Rightarrow>
          Inr (items_to_save, if items_to_save = [] then False else has_more_pages))"

section \<open>Detail enrichment worker (scraps_detalhes.py)\<close>

definition RETRY_MAX_DETALHES :: nat where
  "RETRY_MAX_DETALHES = 2"

text \<open>
  What one \<open>requests.get\<close> followed by the reading of the response does: a response with
  its status code and body, a \<open>requests.exceptions.RequestException\<close>, or another
  exception; the text is \<open>str(e)\<close>.
\<close>

datatype attempt = Resp nat json | ReqExc string | Exc string

text \<open>
  What \<open>_fetch_pedido_data\<close> returns, \<open>(result, status)\<close> with \<open>result\<close> either \<open>None\<close>
  or \<open>(pedido_id, payload, hash_content)\<close>, and what it did on the way: the number of
  requests it issued and the pauses it made, in seconds.
\<close>

record fetch_out =
  fetch_result :: "(int \<times> string \<times> string) option"
  fetch_status :: string
  fetch_requests :: nat
  fetch_sleeps :: "nat list"

text \<open>
  The retry loop of \<open>_fetch_pedido_data\<close>, from the state \<open>retry_count\<close>. \<open>flags k\<close> is the
  stop flag as the loop test reads it when \<open>retry_count = k\<close>, \<open>resp k\<close> what the request
  made then does; \<open>nreq\<close> and \<open>sl\<close> count the requests and pauses so far.
\<close>

function fetch_loop ::
  "pylib \<Rightarrow> int \<Rightarrow> (nat \<Rightarrow> bool) \<Rightarrow> (nat \<Rightarrow> attempt) \<Rightarrow> nat \<Rightarrow> nat \<Rightarrow> nat list \<Rightarrow> fetch_out" where
  "fetch_loop lib pedido_id flags resp retry_count nreq sl =
     (if retry_count < RETRY_MAX_DETALHES \<and> \<not> flags retry_count then
        (case resp retry_count of
           Resp status_code payload_dict \<Rightarrow>
             if status_code = 200 then
               \<lparr>fetch_result = Some (pedido_id, json_dumps (float_repr lib) False payload_dict,
                    hash_content_detalhes lib payload_dict),
                fetch_status = ''success'', fetch_requests = nreq + 1, fetch_sleeps = sl\<rparr>
             else if status_code = 429 then
               fetch_loop lib pedido_id flags resp (retry_count + 1) (nreq + 1) (sl @ [2])
             else if status_code = 404 then
               \<lparr>fetch_result = None, fetch_status = ''not_found'', fetch_requests = nreq + 1,
                fetch_sleeps = sl\<rparr>
             else if retry_count + 1 < RETRY_MAX_DETALHES then
               fetch_loop lib pedido_id flags resp (retry_count + 1) (nreq + 1)
                 (sl @ [min (2 ^ (retry_count + 1)) 10])
             else
               \<lparr>fetch_result = None, fetch_status = ''HTTP '' @ py_str_nat status_code,
                fetch_requests = nreq + 1, fetch_sleeps = sl\<rparr>
         | ReqExc e \<Rightarrow>
             if retry_count + 1 < RETRY_MAX_DETALHES then
               fetch_loop lib pedido_id flags resp (retry_count + 1) (nreq + 1)
                 (sl @ [min (2 ^ (retry_count + 1)) 10])
             else
               \<lparr>fetch_result = None, fetch_status = e, fetch_requests = nreq + 1, fetch_sleeps = sl\<rparr>
         | Exc e \<Rightarrow>
             \<lparr>fetch_result = None, fetch_status = e, fetch_requests = nreq + 1, fetch_sleeps = sl\<rparr>)
      else
        \<lparr>fetch_result = None, fetch_status = ''max_retries_exceeded'', fetch_requests = nreq,
         fetch_sleeps = sl\<rparr>)"
  by pat_completeness auto
termination
  by (relation "measure (\<lambda>(lib, pedido_id, flags, resp, retry_count, nreq, sl).
        RETRY_MAX_DETALHES - retry_count)") auto

declare fetch_loop.simps [simp del]

text \<open>
  The shared state of a \<open>DetalhesWorker\<close> that the fetches and \<open>_process_batch\<close> read and
  write, with the error log of \<open>registrar_erro\<close> (context and message).
\<close>

record detalhes_worker =
  dw_stop_flag :: bool
  success_count :: nat
  error_count :: nat
  daily_limit_hit :: bool
  erros_log :: "(string \<times> string) list"

text \<open>
  What the environment gives one call of \<open>_fetch_pedido_data\<close>: the clock readings of
  its calls of \<open>check_daily_limit\<close> and \<open>wait_if_needed\<close>, the readings of the stop flag
  in the loop and the outcomes of the requests.
\<close>

record fetch_env =
  ck_check :: clock
  ck_wait :: clock
  loop_flags :: "nat \<Rightarrow> bool"
  responses :: "nat \<Rightarrow> attempt"

definition fetch_none :: "string \<Rightarrow> fetch_out" where
  "fetch_none st = \<lparr>fetch_result = None, fetch_status = st, fetch_requests = 0, fetch_sleeps = []\<rparr>"

text \<open>\<open>_fetch_pedido_data\<close>, on the worker and the global rate limiter.\<close>

definition fetch_pedido_data ::
  "pylib \<Rightarrow> fetch_env \<Rightarrow> int \<Rightarrow> detalhes_worker \<times> rate_limiter \<Rightarrow>
     fetch_out \<times> detalhes_worker \<times> rate_limiter" where
  "fetch_pedido_data lib env pedido_id s =
     (case s of (w, rl) \<Rightarrow>
        if dw_stop_flag w then (fetch_none ''canceled'', w, rl)
        else case check_daily_limit (ck_check env) rl of
          (True, rl1) \<Rightarrow> (fetch_none ''daily_limit'', w\<lparr>daily_limit_hit := True\<rparr>, rl1)
        | (False, rl1) \<Rightarrow>
            (case wait_if_needed (ck_wait env) rl1 of
               (True, slept, rl2) \<Rightarrow> (fetch_none ''daily_limit_wait'', w, rl2)
             | (False, slept, rl2) \<Rightarrow>
                 (fetch_loop lib pedido_id (loop_flags env) (responses env) 0 0 [], w, rl2)))"

text \<open>
  A future of \<open>_process_batch\<close> when \<open>as_completed\<close> yields it: \<open>future.result\<close> returns
  the pair of \<open>_fetch_pedido_data\<close> or raises.
\<close>

datatype future = Returned "(int \<times> string \<times> string) option" string | Raised string

text \<open>
  The second loop of \<open>_process_batch\<close> over the futures in the order of their completion,
  each with its \<open>pedido_id\<close>; \<open>results\<close> is the list built so far.
\<close>

fun process_completed ::
  "detalhes_worker \<Rightarrow> (int \<times> string \<times> string) list \<Rightarrow> (int \<times> future) list \<Rightarrow>
     (int \<times> string \<times> string) list \<times> detalhes_worker" where
  "process_completed w results [] = (results, w)"
| "process_completed w results ((pedido_id, f) # rest) =
     (if dw_stop_flag w \<or> daily_limit_hit w then (results, w)
      else case f of
        Raised e \<Rightarrow>
          process_completed
            (w\<lparr>error_count := error_count w + 1,
               erros_log := erros_log w @
                 [(''process_batch_future (pedido '' @ py_str_int pedido_id @ '')'', e)]\<rparr>)
            results rest
      | Returned result status \<Rightarrow>
          if status = ''daily_limit'' \<or> status = ''daily_limit_wait'' then
            (results, w\<lparr>daily_limit_hit := True\<rparr>)
          else if result \<noteq> None \<and> status = ''success'' then
            process_completed (w\<lparr>success_count := success_count w + 1\<rparr>)
              (results @ [the result]) rest
          else
            process_completed
              (w\<lparr>error_count := error_count w + 1,
                 erros_log :=
                   (if status \<notin> set [''canceled'', ''daily_limit'', ''not_found'']
                    then erros_log w @
                      [(''process_batch (pedido '' @ py_str_int pedido_id @ '')'',
                        ''Status: '' @ status)]
                    else erros_log w)\<rparr>)
              results rest)"

text \<open>A worker as \<open>DetalhesWorker.__init__\<close> leaves it.\<close>

definition detalhes_worker0 :: detalhes_worker where
  "detalhes_worker0 = \<lparr>dw_stop_flag = False, success_count = 0, error_count = 0,
     daily_limit_hit = False, erros_log = []\<rparr>"

text \<open>An environment in which the flag stays down and every request is answered alike.\<close>

definition env_always :: "attempt \<Rightarrow> fetch_env" where
  "env_always a = \<lparr>ck_check = clock_at 0, ck_wait = clock_at 0, loop_flags = (\<lambda>k. False),
     responses = (\<lambda>k. a)\<rparr>"

section \<open>Tenant id of a table name\<close>

text \<open>
  \<open>BronzeProcessor._extrair_cliente_id_da_tabela\<close> (orquestrador_bronze.py): every
  exception of the body is raised again as a \<open>ValueError\<close>.
\<close>

definition extrair_cliente_id_da_tabela :: "string \<Rightarrow> error + int" where
  "extrair_cliente_id_da_tabela nome_tabela =
     (let nome_sem_prefixo = py_replace ''tbl_'' [] nome_tabela;
          partes = py_split CHR ''_'' nome_sem_prefixo
      in case partes of
           [] \<Rightarrow> Inl ValueError
         | p # ps \<Rightarrow> (case py_int p of None \<Rightarrow> Inl ValueError | Some n \<Rightarrow> Inr n))"

text \<open>
  \<open>ScrapsDetalhesManager.executar_detalhes\<close> (scraps_detalhes.py) up to the tenant id: it
  returns after a warning (its text here without accents and without the exception's),
  or goes on with the tenant id to parse the headers, ask for confirmation and start the
  \<open>DetalhesWorker\<close>, which alone issues HTTP requests.
\<close>

datatype detalhes_start = Aviso string | Prossegue int

definition executar_detalhes :: "string \<Rightarrow> string \<Rightarrow> detalhes_start" where
  "executar_detalhes tabela_bronze url_template =
     (if tabela_bronze = [] then Aviso ''Selecione uma tabela bronze.''
      else if url_template = [] then Aviso ''Informe a URL template.''
      else case py_split CHR ''_'' (py_replace ''tbl_'' [] tabela_bronze) of
             [] \<Rightarrow> Aviso ''Nao foi possivel identificar o Cliente ID''
           | p # ps \<Rightarrow>
               (case py_int p of
                  None \<Rightarrow> Aviso ''Nao foi possivel identificar o Cliente ID''
                | Some cliente_id \<Rightarrow> Prossegue cliente_id))"

section \<open>Bronze normalizer (orquestrador_bronze.py)\<close>

text \<open>
  A row of the raw table as the processor selects it: \<open>id\<close> and \<open>payload\<close>, the JSONB value
  as the driver returns it (a JSON string arrives as a Python \<open>str\<close>). The third column
  selected, \<open>data_processamento\<close>, is not used.
\<close>

record raw_record =
  rr_id :: int
  rr_payload :: json

text \<open>A row of \<open>usuarios\<close> (routes.py): every column but \<open>id\<close> and \<open>nome\<close> may be NULL.\<close>

record usuario =
  u_id :: int
  u_nome :: string
  u_documento :: "string option"
  u_divisao_id :: "int option"
  u_ativo :: "bool option"

text \<open>The dict \<open>_extrair_dados_pedido\<close> returns; \<open>JNull\<close> is \<open>None\<close> or a missing key.\<close>

record dados_pedido =
  d_pedido_id :: json
  d_pedido_status :: json
  d_vendedor_nome :: json
  d_observacao :: json
  d_integracao :: json
  d_data_baixa :: "int option"
  d_data_pedido :: "int option"
  d_comprador_id :: json
  d_comprador_nome :: json
  d_comprador_email :: json
  d_comprador_documento :: json
  d_valor_total :: json
  d_valor_desconto :: json
  d_valor_liquido :: json
  d_endereco_entrega :: json
  d_itens_pedido :: json
  d_metadata :: json

text \<open>\<open>a or b\<close>.\<close>

definition py_or :: "json \<Rightarrow> json \<Rightarrow> json" where
  "py_or a b = (if py_truthy a then a else b)"

text \<open>\<open>str(v).strip()\<close>.\<close>

definition str_strip :: "pylib \<Rightarrow> json \<Rightarrow> string" where
  "str_strip lib v = py_strip py_isspace (case v of JStr s \<Rightarrow> s | _ \<Rightarrow> str_of lib v)"

text \<open>
  A date field: parsed when the value is truthy; the bare \<open>except\<close> turns every failure
  (a value without \<open>replace\<close>, a text that is no ISO date) into \<open>None\<close>.
\<close>

definition data_iso :: "pylib \<Rightarrow> json \<Rightarrow> int option" where
  "data_iso lib v =
     (case v of JStr s \<Rightarrow> (if s = [] then None else fromisoformat lib (py_replace ''Z'' ''+00:00'' s))
              | _ \<Rightarrow> None)"

definition campos_mapeados :: "string list" where
  "campos_mapeados = [''id'', ''status'', ''vendedor'', ''comprador'', ''data_baixa'',
     ''data_pedido'', ''observacao'', ''integracao'', ''financeiro'',
     ''endereco_entrega'', ''endereco'', ''itens'', ''items'', ''produtos'',
     ''valor_total'', ''total'', ''desconto'', ''valor_liquido'', ''liquido'']"

text \<open>
  \<open>_extrair_dados_pedido\<close>: \<open>None\<close> stands for the empty dict it returns when the body
  raises, which a payload that is not a dict makes it do at the first \<open>payload.get\<close>.
\<close>

definition extrair_dados_pedido :: "pylib \<Rightarrow> json \<Rightarrow> dados_pedido option" where
  "extrair_dados_pedido lib payload_dict =
     (case payload_dict of
        JDict p \<Rightarrow>
          (let vendedor = dict_get p ''vendedor'' JNull;
               comprador = dict_get p ''comprador'' (JDict []);
               financeiro = dict_get p ''financeiro'' (JDict []);
               c = (case comprador of JDict cd \<Rightarrow> (if cd = [] then None else Some cd) | _ \<Rightarrow> None);
               f = (case financeiro of JDict fd \<Rightarrow> (if fd = [] then None else Some fd) | _ \<Rightarrow> None);
               metadata = filter (\<lambda>(k, v). k \<notin> set campos_mapeados) p
           in Some \<lparr>
             d_pedido_id = dict_get p ''id'' JNull,
             d_pedido_status = dict_get p ''status'' JNull,
             d_vendedor_nome = (if vendedor \<noteq> JNull then JStr (str_strip lib vendedor) else JNull),
             d_observacao = dict_get p ''observacao'' JNull,
             d_integracao = dict_get p ''integracao'' JNull,
             d_data_baixa = data_iso lib (dict_get p ''data_baixa'' JNull),
             d_data_pedido = data_iso lib (dict_get p ''data_pedido'' JNull),
             d_comprador_id = (case c of Some cd \<Rightarrow> dict_get cd ''id'' JNull | None \<Rightarrow> JNull),
             d_comprador_nome =
               (case c of
                  Some cd \<Rightarrow>
                    (if dict_get cd ''nome'' JNull \<noteq> JNull
                     then JStr (str_strip lib (dict_get cd ''nome'' JNull)) else JNull)
                | None \<Rightarrow> JNull),
             d_comprador_email = (case c of Some cd \<Rightarrow> dict_get cd ''email'' JNull | None \<Rightarrow> JNull),
             d_comprador_documento =
               (case c of Some cd \<Rightarrow> dict_get cd ''documento'' JNull | None \<Rightarrow> JNull),
             d_valor_total =
               (case f of Some fd \<Rightarrow> dict_get fd ''total'' JNull
                        | None \<Rightarrow> py_or (dict_get p ''valor_total'' JNull) (dict_get p ''total'' JNull)),
             d_valor_desconto =
               (case f of Some fd \<Rightarrow> dict_get fd ''desconto'' JNull
                        | None \<Rightarrow> dict_get p ''desconto'' JNull),
             d_valor_liquido =
               (case f of Some fd \<Rightarrow> dict_get fd ''liquido'' JNull
                        | None \<Rightarrow> py_or (dict_get p ''valor_liquido'' JNull) (dict_get p ''liquido'' JNull)),
             d_endereco_entrega =
               py_or (dict_get p ''endereco_entrega'' JNull) (dict_get p ''endereco'' JNull),
             d_itens_pedido =
               py_or (py_or (dict_get p ''itens'' JNull) (dict_get p ''items'' JNull))
                 (dict_get p ''produtos'' JNull),
             d_metadata = (if metadata \<noteq> [] then JDict metadata else JNull)\<rparr>)
      | _ \<Rightarrow> None)"

text \<open>
  The test \<open>x and x.strip()\<close> of \<open>_mapear_usuario_divisao\<close>: the stripped text when it
  holds, \<open>None\<close> when it does not, and an \<open>AttributeError\<close> for a truthy value that is
  not a string.
\<close>

definition texto_util :: "json \<Rightarrow> error + string option" where
  "texto_util x =
     (if \<not> py_truthy x then Inr None
      else case x of
             JStr s \<Rightarrow> (if py_strip py_isspace s \<noteq> [] then Inr (Some (py_strip py_isspace s))
                        else Inr None)
           | _ \<Rightarrow> Inl AttributeError)"

text \<open>SQL \<open>TRIM\<close> removes spaces at both ends; SQL \<open>LOWER\<close> is read as \<open>py_lower\<close>.\<close>

definition sql_lower_trim :: "string \<Rightarrow> string" where
  "sql_lower_trim s = py_lower (py_strip (\<lambda>c. c = CHR '' '') s)"

text \<open>
  The two queries on \<open>usuarios\<close>. \<open>LIMIT 1\<close> without an order leaves the choice among
  several matching rows to the storage; the model takes the first in table order.
\<close>

definition por_documento :: "usuario list \<Rightarrow> string \<Rightarrow> usuario option" where
  "por_documento us doc = find (\<lambda>u. u_documento u = Some doc \<and> u_ativo u = Some True) us"

definition por_nome :: "usuario list \<Rightarrow> string \<Rightarrow> usuario option" where
  "por_nome us nome =
     find (\<lambda>u. sql_lower_trim (u_nome u) = sql_lower_trim nome \<and> u_ativo u = Some True) us"

text \<open>The body of the \<open>try\<close> of \<open>_mapear_usuario_divisao\<close>, the name lookup first.\<close>

definition mapear_por_nome :: "usuario list \<Rightarrow> json \<Rightarrow> error + (int option \<times> int option)" where
  "mapear_por_nome us comprador_nome =
     (case texto_util comprador_nome of
        Inl e \<Rightarrow> Inl e
      | Inr None \<Rightarrow> Inr (None, None)
      | Inr (Some nome) \<Rightarrow>
          (case por_nome us nome of
             Some u \<Rightarrow> Inr (Some (u_id u), u_divisao_id u)
           | None \<Rightarrow> Inr (None, None)))"

definition mapear_try :: "usuario list \<Rightarrow> json \<Rightarrow> json \<Rightarrow> error + (int option \<times> int option)" where
  "mapear_try us comprador_documento comprador_nome =
     (case texto_util comprador_documento of
        Inl e \<Rightarrow> Inl e
      | Inr None \<Rightarrow> mapear_por_nome us comprador_nome
      | Inr (Some doc) \<Rightarrow>
          (case por_documento us doc of
             Some u \<Rightarrow> Inr (Some (u_id u), u_divisao_id u)
           | None \<Rightarrow> mapear_por_nome us comprador_nome))"

text \<open>\<open>_mapear_usuario_divisao\<close>: an exception of the body gives \<open>(None, None)\<close>.\<close>

definition mapear_usuario_divisao :: "usuario list \<Rightarrow> json \<Rightarrow> json \<Rightarrow> int option \<times> int option" where
  "mapear_usuario_divisao us comprador_documento comprador_nome =
     (case mapear_try us comprador_documento comprador_nome of
        Inl e \<Rightarrow> (None, None)
      | Inr r \<Rightarrow> r)"

text \<open>
  \<open>float(v)\<close>: an integer too large for a double raises \<open>OverflowError\<close>; the rounding of
  the others to a double is not modelled.
\<close>

definition py_float :: "pylib \<Rightarrow> json \<Rightarrow> error + rat" where
  "py_float lib v =
     (case v of
        JBool b \<Rightarrow> Inr (if b then 1 else 0)
      | JInt i \<Rightarrow> (if \<bar>i\<bar> \<ge> 2 ^ 1024 - 2 ^ 970 then Inl OverflowError else Inr (of_int i))
      | JFloat r \<Rightarrow> Inr r
      | JStr s \<Rightarrow> (case float_of_str lib s of None \<Rightarrow> Inl ValueError | Some r \<Rightarrow> Inr r)
      | _ \<Rightarrow> Inl TypeError)"

text \<open>
  \<open>float(v) if v is not None else None\<close> under \<open>except (TypeError, ValueError)\<close>: any
  other exception leaves the row.
\<close>

definition valor_decimal :: "pylib \<Rightarrow> json \<Rightarrow> error + rat option" where
  "valor_decimal lib v =
     (if v = JNull then Inr None
      else case py_float lib v of
             Inr r \<Rightarrow> Inr (Some r)
           | Inl TypeError \<Rightarrow> Inr None
           | Inl ValueError \<Rightarrow> Inr None
           | Inl e \<Rightarrow> Inl e)"

text \<open>A row of the bronze table, without the generated \<open>id\<close> and \<open>data_processamento\<close>.\<close>

record bronze_row =
  b_raw_id :: int
  b_cliente_id :: int
  b_dados :: dados_pedido
  b_valor_total :: "rat option"
  b_valor_desconto :: "rat option"
  b_valor_liquido :: "rat option"
  b_endereco_entrega :: "string option"
  b_itens_pedido :: "string option"
  b_metadata :: "string option"
  b_usuario_id :: "int option"
  b_divisao_id :: "int option"

text \<open>\<open>json.dumps(v) if v else None\<close>.\<close>

definition dumps_if :: "pylib \<Rightarrow> json \<Rightarrow> string option" where
  "dumps_if lib v = (if py_truthy v then Some (json_dumps (float_repr lib) False v) else None)"

text \<open>
  The body of the loop of \<open>BronzeProcessor.run\<close> for one raw row, up to the values of the
  INSERT: the row to insert, or the exception or \<open>continue\<close> that counts the row as an
  error.
\<close>

datatype row_error = JsonInvalido | PayloadVazio | SemDados | Excecao error

definition preparar_registro ::
  "pylib \<Rightarrow> usuario list \<Rightarrow> int \<Rightarrow> raw_record \<Rightarrow> row_error + bronze_row" where
  "preparar_registro lib us cliente_id r =
     (case (case rr_payload r of JStr s \<Rightarrow> json_loads lib s | v \<Rightarrow> Some v) of
        None \<Rightarrow> Inl JsonInvalido
      | Some payload_dict \<Rightarrow>
          if payload_dict = JNull then Inl PayloadVazio
          else case extrair_dados_pedido lib payload_dict of
            None \<Rightarrow> Inl SemDados
          | Some dados \<Rightarrow>
              (case mapear_usuario_divisao us (d_comprador_documento dados) (d_comprador_nome dados) of
                 (usuario_id, divisao_id) \<Rightarrow>
                   (case valor_decimal lib (d_valor_total dados) of
                      Inl e \<Rightarrow> Inl (Excecao e)
                    | Inr valor_total \<Rightarrow>
                   (case valor_decimal lib (d_valor_desconto dados) of
                      Inl e \<Rightarrow> Inl (Excecao e)
                    | Inr valor_desconto \<Rightarrow>
                   (case valor_decimal lib (d_valor_liquido dados) of
                      Inl e \<Rightarrow> Inl (Excecao e)
                    | Inr valor_liquido \<Rightarrow>
                        Inr \<lparr>b_raw_id = rr_id r, b_cliente_id = cliente_id, b_dados = dados,
                             b_valor_total = valor_total, b_valor_desconto = valor_desconto,
                             b_valor_liquido = valor_liquido,
                             b_endereco_entrega = dumps_if lib (d_endereco_entrega dados),
                             b_itens_pedido = dumps_if lib (d_itens_pedido dados),
                             b_metadata = dumps_if lib (d_metadata dados),
                             b_usuario_id = usuario_id, b_divisao_id = divisao_id\<rparr>)))))"

text \<open>
  The storage the processor works on: the raw table, \<open>usuarios\<close>, and the bronze table
  (\<open>None\<close> while it does not exist). The raw table and \<open>usuarios\<close> exist, so that the
  statements reading them are answered. The bronze table (\<open>_criar_tabela_bronze\<close>) has no
  constraint but the primary key on its generated \<open>id\<close>, \<open>NOT NULL\<close> on \<open>raw_id\<close> and
  \<open>cliente_id\<close>, and the foreign key of \<open>cliente_id\<close> to \<open>clientes_tokens\<close>: none on
  \<open>raw_id\<close>, none on the content.
\<close>

record bronze_db =
  raw_tbl :: "raw_record list"
  usuarios_tbl :: "usuario list"
  bronze_tbl :: "bronze_row list option"

text \<open>
  What the storage answers is not decided by the source. For \<open>_criar_tabela_bronze\<close>:
  every statement is taken; or the \<open>CREATE TABLE IF NOT EXISTS\<close> is taken and one of the
  \<open>CREATE INDEX\<close> statements is refused, which the function catches; or the
  \<open>CREATE TABLE\<close> is refused, which the function raises again. For an INSERT into the
  bronze table: the row is taken; or the driver refuses a value before anything is sent
  (a value it cannot adapt), which leaves the transaction as it is; or the server refuses
  the statement (a value that does not fit its column, the foreign key), which aborts
  the transaction.
\<close>

datatype ddl_outcome = Criada | IndiceRecusado | CreateRecusado

datatype insert_outcome = Inserido | ErroDriver | ErroServidor

record storage =
  ddl :: ddl_outcome
  armazena :: "bronze_row \<Rightarrow> insert_outcome"

text \<open>The statements a run sends to the storage, in order.\<close>

datatype db_op =
  CreateTable | SelectExists | SelectCount | SelectRaw | InsertBronze int | CountBronze

text \<open>
  The counters of the loop, the bronze table as the open transaction sees it, and whether
  the transaction is aborted.
\<close>

record run_state =
  registros_processados :: nat
  registros_com_erro :: nat
  bronze_rows :: "bronze_row list"
  tx_abortada :: bool
  ops :: "db_op list"

text \<open>
  One turn of the loop. A row that does not reach the INSERT is counted as an error. The
  whole loop runs in one transaction (the only commit follows the loop): once the server
  has refused a statement, it refuses every later statement of the transaction, so every
  later row ends in the \<open>except\<close> of its turn and is counted as an error. (The lookups of
  \<open>_mapear_usuario_divisao\<close> are refused then as well, which that function catches; the
  row they would have given is not inserted anyway.)
\<close>

definition processar_registro ::
  "pylib \<Rightarrow> storage \<Rightarrow> usuario list \<Rightarrow> int \<Rightarrow> run_state \<Rightarrow> raw_record \<Rightarrow> run_state" where
  "processar_registro lib env us cliente_id st r =
     (case preparar_registro lib us cliente_id r of
        Inl e \<Rightarrow> st\<lparr>registros_com_erro := registros_com_erro st + 1\<rparr>
      | Inr row \<Rightarrow>
          if tx_abortada st then
            st\<lparr>registros_com_erro := registros_com_erro st + 1,
               ops := ops st @ [InsertBronze (rr_id r)]\<rparr>
          else
            (case armazena env row of
               Inserido \<Rightarrow>
                 st\<lparr>registros_processados := registros_processados st + 1,
                    bronze_rows := bronze_rows st @ [row],
                    ops := ops st @ [InsertBronze (rr_id r)]\<rparr>
             | ErroDriver \<Rightarrow>
                 st\<lparr>registros_com_erro := registros_com_erro st + 1\<rparr>
             | ErroServidor \<Rightarrow>
                 st\<lparr>registros_com_erro := registros_com_erro st + 1,
                    tx_abortada := True,
                    ops := ops st @ [InsertBronze (rr_id r)]\<rparr>))"

text \<open>
  How a run ends: the \<open>error\<close> signal for an exception of the program, for an exception
  of the storage, or for the bronze table missing after its creation; or \<open>finished\<close>,
  with or without rows processed.
\<close>

datatype run_end =
    RunError error
  | ErroBanco
  | FalhaAoCriar
  | SemRegistros
  | Concluido nat nat nat

text \<open>
  \<open>BronzeProcessor.run\<close>: the storage after the run, the statements sent, and the end.
  \<^item> The tenant id is taken from the table name before any statement is sent.
  \<^item> \<open>_criar_tabela_bronze\<close> and the commit behind it: a refused \<open>CREATE TABLE\<close> ends the
    run in the outer \<open>except\<close>; a refused \<open>CREATE INDEX\<close> is caught, but has aborted the
    transaction, so the commit keeps nothing and a table that did not exist before is
    still missing, which the run reports.
  \<^item> The loop, then the commit: a transaction the server has aborted keeps nothing of
    the run, and the commit does not raise.
  \<^item> \<open>Concluido\<close> carries the rows processed, the rows in error and the size of the bronze
    table, counted on a new connection.
\<close>

definition bronze_run ::
  "pylib \<Rightarrow> storage \<Rightarrow> string \<Rightarrow> bronze_db \<Rightarrow> bronze_db \<times> db_op list \<times> run_end" where
  "bronze_run lib env tabela_raw db =
     (case extrair_cliente_id_da_tabela tabela_raw of
        Inl e \<Rightarrow> (db, [], RunError e)
      | Inr cliente_id \<Rightarrow>
          if ddl env = CreateRecusado then (db, [CreateTable], ErroBanco)
          else if ddl env = IndiceRecusado \<and> bronze_tbl db = None
          then (db, [CreateTable, SelectExists], FalhaAoCriar)
          else
          (let existing = (case bronze_tbl db of None \<Rightarrow> [] | Some t \<Rightarrow> t);
               db1 = db\<lparr>bronze_tbl := Some existing\<rparr>
           in if length (raw_tbl db) = 0
              then (db1, [CreateTable, SelectExists, SelectCount], SemRegistros)
              else
                (let st = foldl (processar_registro lib env (usuarios_tbl db) cliente_id)
                            \<lparr>registros_processados = 0, registros_com_erro = 0,
                             bronze_rows = existing, tx_abortada = False,
                             ops = [CreateTable, SelectExists, SelectCount, SelectRaw]\<rparr>
                            (raw_tbl db);
                     final = (if tx_abortada st then existing else bronze_rows st)
                 in (db1\<lparr>bronze_tbl := Some final\<rparr>, ops st @ [CountBronze],
                     Concluido (registros_processados st) (registros_com_erro st)
                       (length final)))))"

text \<open>A raw row is parseable when the loop reaches the INSERT for it.\<close>

definition parseable :: "pylib \<Rightarrow> usuario list \<Rightarrow> int \<Rightarrow> raw_record \<Rightarrow> bool" where
  "parseable lib us cliente_id r = (case preparar_registro lib us cliente_id r of Inl e \<Rightarrow> False | Inr row \<Rightarrow> True)"

text \<open>
  Runs one after the other on the same raw table, one for each element of \<open>envs\<close>, which
  gives what the storage answers during that run.
\<close>

definition bronze_runs :: "pylib \<Rightarrow> storage list \<Rightarrow> string \<Rightarrow> bronze_db \<Rightarrow> bronze_db" where
  "bronze_runs lib envs tabela_raw db =
     foldl (\<lambda>d env. fst (bronze_run lib env tabela_raw d)) db envs"

text \<open>The rows of the bronze table, none while it does not exist.\<close>

definition bronze_of :: "bronze_db \<Rightarrow> bronze_row list" where
  "bronze_of db = (case bronze_tbl db of None \<Rightarrow> [] | Some t \<Rightarrow> t)"

text \<open>The rows for which a run reaches the INSERT, in the order of the raw table.\<close>

definition novas_linhas :: "pylib \<Rightarrow> usuario list \<Rightarrow> int \<Rightarrow> raw_record list \<Rightarrow> bronze_row list" where
  "novas_linhas lib us cliente_id rs =
     concat (map (\<lambda>r. case preparar_registro lib us cliente_id r of Inl e \<Rightarrow> [] | Inr row \<Rightarrow> [row]) rs)"

text \<open>
  What one run adds to the bronze table: nothing when the run ends before its loop or
  when the server refuses one of its INSERTs; otherwise the rows that are taken.
\<close>

definition acrescimo :: "pylib \<Rightarrow> storage \<Rightarrow> string \<Rightarrow> bronze_db \<Rightarrow> bronze_row list" where
  "acrescimo lib env tabela_raw db =
     (case extrair_cliente_id_da_tabela tabela_raw of
        Inl e \<Rightarrow> []
      | Inr cliente_id \<Rightarrow>
          if ddl env = CreateRecusado \<or> (ddl env = IndiceRecusado \<and> bronze_tbl db = None) then []
          else
            (let linhas = novas_linhas lib (usuarios_tbl db) cliente_id (raw_tbl db)
             in if list_ex (\<lambda>row. armazena env row = ErroServidor) linhas then []
                else filter (\<lambda>row. armazena env row = Inserido) linhas))"

text \<open>A storage that takes every statement of a run.\<close>

definition toma_tudo :: storage where
  "toma_tudo = \<lparr>ddl = Criada, armazena = (\<lambda>row. Inserido)\<rparr>"

text \<open>
  A storage that takes the DDL and answers an INSERT by the value for \<open>pedido_id\<close>, an
  \<open>INTEGER\<close> column: a text that is no number is refused by the server, a dict cannot be
  adapted by the driver, every other row is taken.
\<close>

definition pedido_id_inteiro :: storage where
  "pedido_id_inteiro =
     \<lparr>ddl = Criada,
      armazena = (\<lambda>row. case d_pedido_id (b_dados row) of
                           JStr s \<Rightarrow> (if s \<noteq> [] \<and> list_all is_digit s then Inserido else ErroServidor)
                         | JDict kvs \<Rightarrow> ErroDriver
                         | _ \<Rightarrow> Inserido)\<rparr>"

text \<open>The text a value holds for a lookup: a string that strips to something.\<close>

definition texto :: "json \<Rightarrow> string option" where
  "texto v = (case v of JStr s \<Rightarrow> (if py_strip py_isspace s \<noteq> [] then Some (py_strip py_isspace s) else None)
                      | _ \<Rightarrow> None)"

text \<open>The link a row of \<open>usuarios\<close> gives.\<close>

definition vinculo :: "usuario option \<Rightarrow> int option \<times> int option" where
  "vinculo m = (case m of Some u \<Rightarrow> (Some (u_id u), u_divisao_id u) | None \<Rightarrow> (None, None))"

text \<open>Storage and inputs for running the model: one active user, Ana, of division 4.\<close>

definition ana :: usuario where
  "ana = \<lparr>u_id = 1, u_nome = ''Ana'', u_documento = Some ''123'', u_divisao_id = Some 4,
     u_ativo = Some True\<rparr>"

definition db_exemplo :: "json list \<Rightarrow> bronze_db" where
  "db_exemplo payloads =
     \<lparr>raw_tbl = map (\<lambda>(i, p). \<lparr>rr_id = int i, rr_payload = p\<rparr>) (enumerate 1 payloads),
      usuarios_tbl = [ana], bronze_tbl = None\<rparr>"

section \<open>Extraction worker: producer, queue and writer (scraps.py, ETLWorker)\<close>

text \<open>An entry of \<open>data_queue\<close>: the sentinel \<open>("STOP", None, None)\<close> or \<open>(payload, hash, None)\<close>.\<close>

datatype qitem = STOP | Item string string

text \<open>\<open>queue.Queue(maxsize=1000).put_nowait\<close>: \<open>None\<close> for \<open>queue.Full\<close>.\<close>

definition put_nowait :: "qitem list \<Rightarrow> qitem \<Rightarrow> qitem list option" where
  "put_nowait q x = (if length q < 1000 then Some (q @ [x]) else None)"

text \<open>The status column of the job in \<open>clientes_scraps\<close>.\<close>

datatype scrap_status = Executando | StatusConcluido | StatusCancelado | StatusErro

text \<open>
  Where the writer thread stands in \<open>_database_writer\<close>: at the test of its loop, in
  \<open>data_queue.get\<close>, with an entry taken and not yet inserted, or past the loop.
\<close>

datatype writer_pc = WTest | WGet | WWrite string string | WExit

definition RETRY_MAX :: nat where
  "RETRY_MAX = 5"

text \<open>
  Where \<open>run\<close> stands: at the test of the page loop (line 252); at the test of the retry
  loop with its \<open>retry_count\<close> (line 265); in \<open>requests.get\<close> or \<open>requests.post\<close>, the
  request sent and the response awaited; in the \<open>for\<close> loop with the items of the page
  still to enqueue; in the pause after \<open>queue.Full\<close> for an item; past the loop, in
  \<open>writer_thread.join\<close>; at its end.
\<close>

datatype producer_pc =
    PLoop
  | PRetry nat
  | PRequest nat
  | PPut "json list"
  | PFull json "json list"
  | PJoin
  | PEnd

text \<open>
  The worker, the destination table and the job's row. \<open>registros_coletados\<close> is the
  column of the job, written only when the job completes. Two counters are added for
  the statements about a run: \<open>requisicoes\<close> counts the requests sent to the API,
  \<open>perdidos\<close> the items dropped on a full queue (logged by \<open>registrar_erro\<close>).
\<close>

record etl_worker =
  stop_flag :: bool
  data_queue :: "qitem list"
  total_registros :: nat
  tabela_destino :: raw_table
  writer_pc :: writer_pc
  current_page :: nat
  has_more_pages :: bool
  producer_pc :: producer_pc
  status :: scrap_status
  registros_coletados :: "nat option"
  requisicoes :: nat
  perdidos :: nat

text \<open>\<open>ETLWorker.stop\<close>, called from the thread of the user interface.\<close>

definition etl_stop :: "etl_worker \<Rightarrow> etl_worker" where
  "etl_stop s =
     (let s1 = s\<lparr>stop_flag := True\<rparr>
      in case put_nowait (data_queue s1) STOP of
           Some q \<Rightarrow> s1\<lparr>data_queue := q\<rparr>
         | None \<Rightarrow> s1)"

text \<open>
  One step of the writer thread; \<open>a\<close> is the storage's answer if the step executes the
  INSERT. At the test the loop ends when the flag is up. In \<open>get\<close> an empty queue ends in
  the timeout and the loop goes on, the sentinel ends the loop, a data entry is taken. The
  entry taken is inserted and committed whatever the flag has become; when the statement
  or the commit raises, the writer logs the error and leaves its loop.
\<close>

definition writer_step :: "db_answer \<Rightarrow> etl_worker \<Rightarrow> etl_worker" where
  "writer_step a s =
     (case writer_pc s of
        WTest \<Rightarrow> (if stop_flag s then s\<lparr>writer_pc := WExit\<rparr> else s\<lparr>writer_pc := WGet\<rparr>)
      | WGet \<Rightarrow>
          (case data_queue s of
             [] \<Rightarrow> s\<lparr>writer_pc := WTest\<rparr>
           | STOP # q \<Rightarrow> s\<lparr>data_queue := q, writer_pc := WExit\<rparr>
           | Item p h # q \<Rightarrow> s\<lparr>data_queue := q, writer_pc := WWrite p h\<rparr>)
      | WWrite p h \<Rightarrow>
          (case write_item a (tabela_destino s, total_registros s) (p, h) of
             Inl (t, n) \<Rightarrow> s\<lparr>tabela_destino := t, total_registros := n, writer_pc := WExit\<rparr>
           | Inr (t, n) \<Rightarrow> s\<lparr>tabela_destino := t, total_registros := n, writer_pc := WTest\<rparr>)
      | WExit \<Rightarrow> s)"

text \<open>
  What one request gives: a response with status 200 and its JSON body, a response of
  another status that \<open>raise_for_status\<close> lets pass, a \<open>RequestException\<close> (of the request
  or of \<open>raise_for_status\<close>), or a response with status 200 whose body \<open>response.json()\<close>
  cannot read.
\<close>

datatype page_result = Ok200 json | OkOther | Falha | JsonErro

text \<open>The entry the producer puts on the queue for an item.\<close>

definition queue_entry :: "pylib \<Rightarrow> json \<Rightarrow> qitem" where
  "queue_entry lib item =
     Item (json_dumps (float_repr lib) False item) (hash_content_etl lib item)"

text \<open>
  The code after the page loop: when the writer thread is alive the sentinel is put on
  the queue (a full queue is passed over) and \<open>run\<close> waits in \<open>join\<close>.
\<close>

definition after_loop :: "etl_worker \<Rightarrow> etl_worker" where
  "after_loop s =
     (if writer_pc s \<noteq> WExit then
        (case put_nowait (data_queue s) STOP of
           Some q \<Rightarrow> s\<lparr>data_queue := q, producer_pc := PJoin\<rparr>
         | None \<Rightarrow> s\<lparr>producer_pc := PJoin\<rparr>)
      else s\<lparr>producer_pc := PJoin\<rparr>)"

text \<open>
  What the storage does with the update of the job's status at the end of \<open>run\<close> is
  not decided by the source: it takes the update; or it refuses it (the new connection,
  the \<open>UPDATE\<close> or the commit raises) and takes the update to \<open>erro\<close> that the handler
  of \<open>run\<close> then sends on the connection it has; or it refuses both, which the handler
  passes over.
\<close>

datatype update_answer = Gravado | SoErro | Recusado

text \<open>The handler \<open>except Exception\<close> of \<open>run\<close>: the job is marked \<open>erro\<close> if the storage takes it.\<close>

definition marca_erro :: "update_answer \<Rightarrow> etl_worker \<Rightarrow> etl_worker" where
  "marca_erro a s =
     s\<lparr>producer_pc := PEnd, status := (if a = Recusado then status s else StatusErro)\<rparr>"

text \<open>
  The end of \<open>run\<close>, after the join (which waits 30 seconds at most, so the writer may
  still be alive): the job is completed with its count, or cancelled when the flag is up;
  an update the storage refuses raises into the handler.
\<close>

definition finish :: "update_answer \<Rightarrow> etl_worker \<Rightarrow> etl_worker" where
  "finish a s =
     (if a \<noteq> Gravado then marca_erro a s
      else if \<not> stop_flag s then
        s\<lparr>producer_pc := PEnd, status := StatusConcluido,
          registros_coletados := Some (total_registros s)\<rparr>
      else s\<lparr>producer_pc := PEnd, status := StatusCancelado\<rparr>)"

text \<open>
  One step of \<open>run\<close>; \<open>r\<close> is what the request gives if the step is the return of one,
  \<open>a\<close> what the storage does with the status if the step updates it.
  \<^item> At the test of the page loop, \<open>has_more_pages and not self._stop_flag\<close>, the loop is
    left when the test fails; otherwise the retry loop is entered with \<open>retry_count = 0\<close>.
  \<^item> At the test of the retry loop, \<open>retry_count < self.retry_max and not
    self._stop_flag\<close>, the request is sent when the test holds; when it fails there is no
    response with status 200 and \<open>continue\<close> leads to the test of the page loop.
  \<^item> The flag is not read again until the page is done. When the request returns, a
    \<open>RequestException\<close> counts an attempt: below the maximum the pause follows and the
    test of the retry loop, at the maximum \<open>has_more_pages\<close> becomes false and \<open>continue\<close>
    follows. A response of another status than 200 leads to \<open>continue\<close>. A response with
    status 200 fixes, by its shape, the items and \<open>has_more_pages\<close>.
  \<^item> In the \<open>for\<close> loop one item is handled: a falsy item is skipped, a full queue
    leads to the pause and a second \<open>put_nowait\<close>, after which the item is dropped.
  \<^item> When no item is left the page number advances and the test of the page loop comes
    next (with \<open>has_more_pages\<close> false it fails, as the \<open>break\<close> does).
  \<^item> An exception in the body (\<open>response.json()\<close>, an ill-typed comparison of the page
    fields) ends \<open>run\<close> in its handler.
\<close>

definition producer_step ::
  "pylib \<Rightarrow> page_result \<Rightarrow> update_answer \<Rightarrow> etl_worker \<Rightarrow> etl_worker" where
  "producer_step lib r a s =
     (case producer_pc s of
        PLoop \<Rightarrow>
          (if \<not> (has_more_pages s \<and> \<not> stop_flag s) then after_loop s
           else s\<lparr>producer_pc := PRetry 0\<rparr>)
      | PRetry retry_count \<Rightarrow>
          (if retry_count < RETRY_MAX \<and> \<not> stop_flag s
           then s\<lparr>requisicoes := requisicoes s + 1, producer_pc := PRequest retry_count\<rparr>
           else s\<lparr>producer_pc := PLoop\<rparr>)
      | PRequest retry_count \<Rightarrow>
          (case r of
             Falha \<Rightarrow>
               (if retry_count + 1 < RETRY_MAX then s\<lparr>producer_pc := PRetry (retry_count + 1)\<rparr>
                else s\<lparr>has_more_pages := False, producer_pc := PLoop\<rparr>)
           | OkOther \<Rightarrow> s\<lparr>producer_pc := PLoop\<rparr>
           | JsonErro \<Rightarrow> marca_erro a s
           | Ok200 response_data \<Rightarrow>
               (case response_items response_data of
                  Inl e \<Rightarrow> marca_erro a s
                | Inr (items_to_save, mais) \<Rightarrow>
                    s\<lparr>has_more_pages := mais, producer_pc := PPut items_to_save\<rparr>))
      | PPut [] \<Rightarrow> s\<lparr>current_page := current_page s + 1, producer_pc := PLoop\<rparr>
      | PPut (item # rest) \<Rightarrow>
          (if py_truthy item then
             (case put_nowait (data_queue s) (queue_entry lib item) of
                Some q \<Rightarrow> s\<lparr>data_queue := q, producer_pc := PPut rest\<rparr>
              | None \<Rightarrow> s\<lparr>producer_pc := PFull item rest\<rparr>)
           else s\<lparr>producer_pc := PPut rest\<rparr>)
      | PFull item rest \<Rightarrow>
          (case put_nowait (data_queue s) (queue_entry lib item) of
             Some q \<Rightarrow> s\<lparr>data_queue := q, producer_pc := PPut rest\<rparr>
           | None \<Rightarrow> s\<lparr>perdidos := perdidos s + 1, producer_pc := PPut rest\<rparr>)
      | PJoin \<Rightarrow> finish a s
      | PEnd \<Rightarrow> s)"

text \<open>
  A run is a sequence of events, the interleaving of the three threads: the user's stop,
  a step of the writer thread with the storage's answer, a step of \<open>run\<close> with what the
  API and the storage give.
\<close>

datatype event = EvStop | EvWriter db_answer | EvProducer page_result update_answer

fun step :: "pylib \<Rightarrow> etl_worker \<Rightarrow> event \<Rightarrow> etl_worker" where
  "step lib s EvStop = etl_stop s"
| "step lib s (EvWriter a) = writer_step a s"
| "step lib s (EvProducer r a) = producer_step lib r a s"

definition exec :: "pylib \<Rightarrow> event list \<Rightarrow> etl_worker \<Rightarrow> etl_worker" where
  "exec lib es s = foldl (step lib) s es"

text \<open>The worker when \<open>run\<close> has started the writer thread and enters the page loop.\<close>

definition etl_worker0 :: "raw_table \<Rightarrow> etl_worker" where
  "etl_worker0 t = \<lparr>stop_flag = False, data_queue = [], total_registros = 0, tabela_destino = t,
     writer_pc = WTest, current_page = 1, has_more_pages = True, producer_pc = PLoop,
     status = Executando, registros_coletados = None, requisicoes = 0, perdidos = 0\<rparr>"

text \<open>
  No page is in progress: \<open>run\<close> stands at a loop test, in the join or at its end. A page
  is in progress while a request is out or its items are being enqueued.
\<close>

definition quiet :: "producer_pc \<Rightarrow> bool" where
  "quiet pc = (case pc of PRequest k \<Rightarrow> False | PPut xs \<Rightarrow> False | PFull x xs \<Rightarrow> False | _ \<Rightarrow> True)"

definition page_pending :: "etl_worker \<Rightarrow> nat" where
  "page_pending s = (if quiet (producer_pc s) then 0 else 1)"

text \<open>A request is out.\<close>

definition in_request :: "producer_pc \<Rightarrow> bool" where
  "in_request pc = (case pc of PRequest k \<Rightarrow> True | _ \<Rightarrow> False)"

text \<open>
  The entry the writer will insert if it goes on: the one it holds, or, while it is in
  \<open>get\<close>, the data entry at the head of the queue.
\<close>

definition writer_next :: "etl_worker \<Rightarrow> (string \<times> string) list" where
  "writer_next s =
     (case writer_pc s of
        WWrite p h \<Rightarrow> [(p, h)]
      | WGet \<Rightarrow> (case data_queue s of Item p h # q \<Rightarrow> [(p, h)] | _ \<Rightarrow> [])
      | _ \<Rightarrow> [])"

text \<open>The row the writer inserts for an entry.\<close>

definition linha :: "string \<times> string \<Rightarrow> raw_row" where
  "linha x = \<lparr>payload = fst x, hash_conteudo = Some (snd x)\<rparr>"

text \<open>
  The steps \<open>run\<close> has before it once the flag is up and no request is out: what is left
  of the page in progress (two steps an item at most), the loop tests, the join, the
  update of the status.
\<close>

definition passos_restantes :: "producer_pc \<Rightarrow> nat" where
  "passos_restantes pc =
     (case pc of
        PEnd \<Rightarrow> 0
      | PJoin \<Rightarrow> 1
      | PLoop \<Rightarrow> 2
      | PRetry k \<Rightarrow> 3
      | PRequest k \<Rightarrow> 0
      | PPut xs \<Rightarrow> 2 * length xs + 3
      | PFull x xs \<Rightarrow> 2 * length xs + 4)"

text \<open>The steps of \<open>run\<close> among the events, and the events whose status update is taken.\<close>

definition is_producer :: "event \<Rightarrow> bool" where
  "is_producer e = (case e of EvProducer r a \<Rightarrow> True | _ \<Rightarrow> False)"

definition update_taken :: "event \<Rightarrow> bool" where
  "update_taken e = (case e of EvProducer r a \<Rightarrow> a = Gravado | _ \<Rightarrow> True)"

text \<open>The data entries of a queue, without the sentinels.\<close>

definition data_items :: "qitem list \<Rightarrow> qitem list" where
  "data_items q = filter (\<lambda>x. x \<noteq> STOP) q"

text \<open>Page \<open>k\<close> of a mock API of 10 pages with two records each.\<close>

definition pagina :: "int \<Rightarrow> json" where
  "pagina k = JDict [(''data'', JList [JDict [(''id'', JInt (2 * k - 1))], JDict [(''id'', JInt (2 * k))]]),
     (''current_page'', JInt k), (''last_page'', JInt 10)]"

text \<open>
  The producer handles page \<open>k\<close> alone: the two loop tests, the request answered with
  the page, the two puts, the end of the page.
\<close>

definition coleta :: "int \<Rightarrow> event list" where
  "coleta k = replicate 6 (EvProducer (Ok200 (pagina k)) Gravado)"

text \<open>The writer makes one full turn alone, the storage taking the INSERT: test, get, insert.\<close>

definition escrita :: "event list" where
  "escrita = replicate 3 (EvWriter Accepted)"

section \<open>Properties of the raw insert\<close>

lemma hashes_eq: "hashes t = the ` set (map hash_conteudo (hashed_rows t))"
proof (rule set_eqI)
  fix h
  show "h \<in> hashes t \<longleftrightarrow> h \<in> the ` set (map hash_conteudo (hashed_rows t))"
  proof
    assume "h \<in> hashes t"
    then obtain r where r: "r \<in> set t" "hash_conteudo r = Some h"
      by (auto simp: hashes_def image_iff)
    then have "Some h \<in> set (map hash_conteudo (hashed_rows t))"
      by (force simp: hashed_rows_def image_iff)
    then show "h \<in> the ` set (map hash_conteudo (hashed_rows t))"
      by (metis option.sel image_eqI)
  next
    assume "h \<in> the ` set (map hash_conteudo (hashed_rows t))"
    then obtain r where "r \<in> set t" "hash_conteudo r \<noteq> None" "h = the (hash_conteudo r)"
      by (auto simp: hashed_rows_def)
    then show "h \<in> hashes t"
      by (auto simp: hashes_def image_iff intro!: bexI [of _ r])
  qed
qed

lemma finite_hashes: "finite (hashes t)"
  unfolding hashes_eq by (rule finite_imageI) (rule finite_set)

lemma finite_item_hashes: "finite (item_hashes items)"
  by (simp add: item_hashes_def)

lemma uq_hash_card:
  "uq_hash t \<Longrightarrow> length (hashed_rows t) = card (hashes t)"
proof -
  assume u: "uq_hash t"
  have "inj_on the (set (map hash_conteudo (hashed_rows t)))"
    by (auto simp: inj_on_def hashed_rows_def)
  then have "card (hashes t) = card (set (map hash_conteudo (hashed_rows t)))"
    unfolding hashes_eq by (rule card_image)
  also have "\<dots> = length (map hash_conteudo (hashed_rows t))"
    using u unfolding uq_hash_def by (rule distinct_card)
  finally show ?thesis by simp
qed

text \<open>One turn of the writer, by what it leaves.\<close>

lemma write_item_present:
  "h \<in> hashes (fst s) \<Longrightarrow> write_item a s (p, h) = Inl s \<or> write_item a s (p, h) = Inr s"
  by (cases s)
    (auto simp: write_item_def insert_on_conflict_do_nothing_def hashes_def split: if_splits)

lemma write_item_Inl:
  "write_item a s (p, h) = Inl s' \<Longrightarrow>
     fst s' = fst s \<and> (s' = s \<or> (snd s' = snd s + 1 \<and> h \<notin> hashes (fst s)))"
  by (cases s)
    (auto simp: write_item_def insert_on_conflict_do_nothing_def hashes_def Let_def
      split: if_splits)

lemma write_item_Inr:
  "write_item a s (p, h) = Inr s' \<Longrightarrow>
     hashes (fst s') = insert h (hashes (fst s)) \<and>
     snd s' = (if h \<in> hashes (fst s) then snd s else snd s + 1) \<and>
     snd s' + length (fst s) = snd s + length (fst s')"
  by (cases s)
    (auto simp: write_item_def insert_on_conflict_do_nothing_def hashes_def image_iff Let_def
      split: if_splits)

lemma write_item_uq:
  "write_item a s (p, h) = Inr s' \<Longrightarrow> uq_hash (fst s) \<Longrightarrow> uq_hash (fst s')"
  by (cases s)
    (auto simp: write_item_def insert_on_conflict_do_nothing_def uq_hash_def hashed_rows_def
      image_iff Let_def split: if_splits)

lemma write_item_rows:
  "write_item a s (p, h) = Inl s' \<or> write_item a s (p, h) = Inr s' \<Longrightarrow>
     length (fst s') + length (hashed_rows (fst s)) = length (hashed_rows (fst s')) + length (fst s)"
  by (cases s)
    (auto simp: write_item_def insert_on_conflict_do_nothing_def hashed_rows_def Let_def
      split: if_splits)

lemma write_item_Accepted: "\<exists>s'. write_item Accepted s (p, h) = Inr s'"
  by (simp add: write_item_def insert_on_conflict_do_nothing_def Let_def)

text \<open>A sequence of turns.\<close>

lemma write_items_hashes_sub:
  "hashes (fst (write_items s items)) \<subseteq> hashes (fst s) \<union> item_hashes items"
proof (induction s items rule: write_items.induct)
  case (1 s)
  show ?case by simp
next
  case (2 s a item rest)
  obtain p h where it: "item = (p, h)" by (cases item)
  show ?case
  proof (cases "write_item a s item")
    case (Inl s')
    then have "fst s' = fst s" using write_item_Inl it by blast
    then show ?thesis using Inl by simp
  next
    case (Inr s')
    have "hashes (fst s') = insert h (hashes (fst s))"
      using Inr write_item_Inr it by blast
    then show ?thesis using 2 [OF Inr] Inr by (auto simp: item_hashes_def it)
  qed
qed

lemma write_items_uq:
  "uq_hash (fst s) \<Longrightarrow> uq_hash (fst (write_items s items))"
proof (induction s items rule: write_items.induct)
  case (1 s)
  then show ?case by simp
next
  case (2 s a item rest)
  obtain p h where it: "item = (p, h)" by (cases item)
  show ?case
  proof (cases "write_item a s item")
    case (Inl s')
    then have "fst s' = fst s" using write_item_Inl it by blast
    then show ?thesis using Inl "2.prems" by simp
  next
    case (Inr s')
    have "uq_hash (fst s')" using Inr write_item_uq it "2.prems" by blast
    then show ?thesis using 2 Inr by simp
  qed
qed

lemma write_items_rows:
  "length (fst (write_items s items)) + length (hashed_rows (fst s))
     = length (hashed_rows (fst (write_items s items))) + length (fst s)"
proof (induction s items rule: write_items.induct)
  case (1 s)
  show ?case by simp
next
  case (2 s a item rest)
  obtain p h where it: "item = (p, h)" by (cases item)
  show ?case
  proof (cases "write_item a s item")
    case (Inl s')
    then have "length (fst s') + length (hashed_rows (fst s)) = length (hashed_rows (fst s')) + length (fst s)"
      using write_item_rows it by blast
    then show ?thesis using Inl by simp
  next
    case (Inr s')
    then have "length (fst s') + length (hashed_rows (fst s)) = length (hashed_rows (fst s')) + length (fst s)"
      using write_item_rows it by blast
    then show ?thesis using 2 [OF Inr] Inr by simp
  qed
qed

lemma card_new_hash:
  assumes f: "finite B"
  shows "(if h \<in> A then 0 else 1) + card (B - insert h A) = card (insert h B - A)"
proof (cases "h \<in> A")
  case True
  then have "insert h B - A = B - insert h A" by blast
  then have "card (insert h B - A) = card (B - insert h A)" by (rule arg_cong)
  then show ?thesis using True by (simp only: if_True add_0)
next
  case False
  then have "insert h B - A = insert h (B - insert h A)" by blast
  then have e: "card (insert h B - A) = card (insert h (B - insert h A))" by (rule arg_cong)
  have n: "h \<notin> B - insert h A" by blast
  have "finite (B - insert h A)" using f by (rule finite_Diff)
  then have "card (insert h (B - insert h A)) = Suc (card (B - insert h A))"
    using n by (rule card_insert_disjoint)
  then show ?thesis using False e by (simp only: if_False plus_1_eq_Suc)
qed

lemma write_items_counter_le:
  "snd (write_items s items) \<le> snd s + card (item_hashes items - hashes (fst s))"
proof (induction s items rule: write_items.induct)
  case (1 s)
  show ?case by simp
next
  case (2 s a item rest)
  obtain p h where it: "item = (p, h)" by (cases item)
  have ih: "item_hashes ((a, item) # rest) = insert h (item_hashes rest)"
    by (simp add: item_hashes_def it)
  have c: "(if h \<in> hashes (fst s) then 0 else 1) + card (item_hashes rest - insert h (hashes (fst s)))
      = card (item_hashes ((a, item) # rest) - hashes (fst s))"
    unfolding ih by (rule card_new_hash) (rule finite_item_hashes)
  show ?case
  proof (cases "write_item a s item")
    case (Inl s')
    then have "s' = s \<or> (snd s' = snd s + 1 \<and> h \<notin> hashes (fst s))"
      using write_item_Inl it by blast
    then have "snd s' \<le> snd s + (if h \<in> hashes (fst s) then 0 else 1)" by auto
    then show ?thesis using Inl c by simp
  next
    case (Inr s')
    have r: "hashes (fst s') = insert h (hashes (fst s))"
      "snd s' = (if h \<in> hashes (fst s) then snd s else snd s + 1)"
      using Inr write_item_Inr it by blast+
    have "snd (write_items s' rest) \<le> snd s' + card (item_hashes rest - insert h (hashes (fst s)))"
      using 2 [OF Inr] r(1) by simp
    then show ?thesis using Inr c r(2) by (simp split: if_splits)
  qed
qed

lemma write_items_absorbed:
  "item_hashes items \<subseteq> hashes (fst s) \<Longrightarrow> write_items s items = s"
proof (induction s items rule: write_items.induct)
  case (1 s)
  show ?case by simp
next
  case (2 s a item rest)
  obtain p h where it: "item = (p, h)" by (cases item)
  have h: "h \<in> hashes (fst s)" using "2.prems" by (auto simp: item_hashes_def it)
  have rest: "item_hashes rest \<subseteq> hashes (fst s)" using "2.prems" by (auto simp: item_hashes_def)
  from write_item_present [OF h, of a p] show ?case
  proof
    assume "write_item a s (p, h) = Inl s"
    then show ?thesis by (simp add: it)
  next
    assume r: "write_item a s (p, h) = Inr s"
    then have "write_item a s item = Inr s" by (simp add: it)
    from 2(1) [OF this] rest this show ?thesis by simp
  qed
qed

lemma write_items_all_accepted:
  "\<forall>x\<in>set items. fst x = Accepted \<Longrightarrow>
   hashes (fst (write_items s items)) = hashes (fst s) \<union> item_hashes items \<and>
   snd (write_items s items) + length (fst s) = snd s + length (fst (write_items s items))"
proof (induction s items rule: write_items.induct)
  case (1 s)
  show ?case by (simp add: item_hashes_def)
next
  case (2 s a item rest)
  obtain p h where it: "item = (p, h)" by (cases item)
  have a: "a = Accepted" using "2.prems" by simp
  then obtain s' where s': "write_item a s item = Inr s'"
    using write_item_Accepted [of s p h] it by auto
  have r: "hashes (fst s') = insert h (hashes (fst s))"
    "snd s' + length (fst s) = snd s + length (fst s')"
    using s' write_item_Inr it by blast+
  have "\<forall>x\<in>set rest. fst x = Accepted" using "2.prems" by simp
  from 2(1) [OF s' this] r s' show ?case by (auto simp: item_hashes_def it)
qed

text \<open>
  Claim C1. Inserting an item whose content hash is already in the raw table leaves the
  table and the collected-record counter unchanged, whatever the storage answers. For
  every sequence of ingested items written into a table that satisfies the uniqueness
  constraint, whatever the storage answers to each, the constraint still holds and the
  rows carrying a hash are at most the distinct hashes seen (those already stored and
  those of the items); the same bound holds after any further sequence of items whose
  hashes were all seen (a re-run of the extraction); every row the writer adds carries a
  hash; and the counter grows by at most the number of distinct hashes that were not
  stored. When the storage takes every statement
  the bound is reached, the counter grows by exactly the number of rows added, and writing
  the same items a second time changes nothing.
\<close>

theorem raw_insert_idempotent:
  "(h \<in> hashes t \<longrightarrow> write_items (t, n) [(a, p, h)] = (t, n)) \<and>
   (uq_hash t \<longrightarrow>
      uq_hash (fst (write_items (t, n) items)) \<and>
      length (hashed_rows (fst (write_items (t, n) items))) \<le> card (hashes t \<union> item_hashes items)) \<and>
   (uq_hash t \<and> item_hashes again \<subseteq> hashes t \<union> item_hashes items \<longrightarrow>
      length (hashed_rows (fst (write_items (write_items (t, n) items) again)))
        \<le> card (hashes t \<union> item_hashes items)) \<and>
   length (fst (write_items (t, n) items)) + length (hashed_rows t)
     = length (hashed_rows (fst (write_items (t, n) items))) + length t \<and>
   snd (write_items (t, n) items) \<le> n + card (item_hashes items - hashes t) \<and>
   ((\<forall>x\<in>set items. fst x = Accepted) \<longrightarrow>
      (uq_hash t \<longrightarrow>
         length (hashed_rows (fst (write_items (t, n) items))) = card (hashes t \<union> item_hashes items)) \<and>
      snd (write_items (t, n) items) + length t = n + length (fst (write_items (t, n) items)) \<and>
      write_items (write_items (t, n) items) items = write_items (t, n) items)"
proof -
  let ?R = "write_items (t, n) items"
  let ?A = "hashes t \<union> item_hashes items"
  have fin: "finite ?A" by (simp add: finite_hashes finite_item_hashes)
  have sub: "hashes (fst ?R) \<subseteq> ?A" using write_items_hashes_sub [of "(t, n)" items] by simp
  have c1: "h \<in> hashes t \<longrightarrow> write_items (t, n) [(a, p, h)] = (t, n)"
  proof
    assume "h \<in> hashes t"
    then have "item_hashes [(a, p, h)] \<subseteq> hashes (fst (t, n))" by (simp add: item_hashes_def)
    then show "write_items (t, n) [(a, p, h)] = (t, n)" by (rule write_items_absorbed)
  qed
  have c2: "uq_hash t \<longrightarrow> uq_hash (fst ?R) \<and> length (hashed_rows (fst ?R)) \<le> card ?A"
  proof
    assume "uq_hash t"
    then have u: "uq_hash (fst ?R)" using write_items_uq [of "(t, n)" items] by simp
    have "card (hashes (fst ?R)) \<le> card ?A" using fin sub by (rule card_mono)
    then show "uq_hash (fst ?R) \<and> length (hashed_rows (fst ?R)) \<le> card ?A"
      using u uq_hash_card [OF u] by simp
  qed
  have c3: "uq_hash t \<and> item_hashes again \<subseteq> ?A \<longrightarrow>
      length (hashed_rows (fst (write_items ?R again))) \<le> card ?A"
  proof
    assume h: "uq_hash t \<and> item_hashes again \<subseteq> ?A"
    then have "uq_hash (fst ?R)" using write_items_uq [of "(t, n)" items] by simp
    then have u: "uq_hash (fst (write_items ?R again))" by (rule write_items_uq)
    have "hashes (fst (write_items ?R again)) \<subseteq> hashes (fst ?R) \<union> item_hashes again"
      by (rule write_items_hashes_sub)
    then have "hashes (fst (write_items ?R again)) \<subseteq> ?A" using sub h by blast
    with fin have "card (hashes (fst (write_items ?R again))) \<le> card ?A" by (rule card_mono)
    then show "length (hashed_rows (fst (write_items ?R again))) \<le> card ?A"
      using uq_hash_card [OF u] by simp
  qed
  have c3b: "length (fst ?R) + length (hashed_rows t) = length (hashed_rows (fst ?R)) + length t"
    using write_items_rows [of "(t, n)" items] by simp
  have c4: "snd ?R \<le> n + card (item_hashes items - hashes t)"
    using write_items_counter_le [of "(t, n)" items] by simp
  have c5: "(\<forall>x\<in>set items. fst x = Accepted) \<longrightarrow>
      (uq_hash t \<longrightarrow> length (hashed_rows (fst ?R)) = card ?A) \<and>
      snd ?R + length t = n + length (fst ?R) \<and>
      write_items ?R items = ?R"
  proof
    assume acc: "\<forall>x\<in>set items. fst x = Accepted"
    from write_items_all_accepted [OF acc, of "(t, n)"]
    have e: "hashes (fst ?R) = ?A" and k: "snd ?R + length t = n + length (fst ?R)" by simp_all
    have a: "uq_hash t \<longrightarrow> length (hashed_rows (fst ?R)) = card ?A"
    proof
      assume "uq_hash t"
      then have "uq_hash (fst ?R)" using write_items_uq [of "(t, n)" items] by simp
      then show "length (hashed_rows (fst ?R)) = card ?A" using uq_hash_card e by simp
    qed
    have "item_hashes items \<subseteq> hashes (fst ?R)" using e by simp
    then have "write_items ?R items = ?R" by (rule write_items_absorbed)
    with a k show "(uq_hash t \<longrightarrow> length (hashed_rows (fst ?R)) = card ?A) \<and>
      snd ?R + length t = n + length (fst ?R) \<and> write_items ?R items = ?R" by simp
  qed
  from c1 c2 c3 c3b c4 c5 show ?thesis by (intro conjI)
qed

theorem raw_insert_idempotent_witness:
  "''ab'' \<in> hashes raw_exemplo \<and>
   uq_hash raw_exemplo \<and>
   item_hashes itens_recusados \<subseteq> hashes raw_exemplo \<union> item_hashes itens_exemplo \<and>
   fst ` set itens_exemplo = {Accepted} \<and>
   write_items (raw_exemplo, 1) [(CommitFails, ''{}'', ''ab'')] = (raw_exemplo, 1) \<and>
   length (hashed_rows (fst (write_items (raw_exemplo, 1) itens_exemplo)))
     = card (hashes raw_exemplo \<union> item_hashes itens_exemplo) \<and>
   length (hashed_rows (fst (write_items (write_items (raw_exemplo, 1) itens_exemplo) itens_recusados)))
     \<le> card (hashes raw_exemplo \<union> item_hashes itens_exemplo) \<and>
   length (fst (write_items (raw_exemplo, 1) itens_exemplo)) + length (hashed_rows raw_exemplo)
     = length (hashed_rows (fst (write_items (raw_exemplo, 1) itens_exemplo))) + length raw_exemplo \<and>
   snd (write_items (raw_exemplo, 1) itens_exemplo)
     \<le> 1 + card (item_hashes itens_exemplo - hashes raw_exemplo) \<and>
   write_items (write_items (raw_exemplo, 1) itens_exemplo) itens_exemplo
     = write_items (raw_exemplo, 1) itens_exemplo"
proof -
  have h1: "''ab'' \<in> hashes raw_exemplo"
    by (simp add: hashes_def raw_exemplo_def)
  have h2: "uq_hash raw_exemplo"
    by (simp add: uq_hash_def hashed_rows_def raw_exemplo_def)
  have h3: "item_hashes itens_recusados \<subseteq> hashes raw_exemplo \<union> item_hashes itens_exemplo"
    by (simp add: item_hashes_def hashes_def raw_exemplo_def itens_exemplo_def itens_recusados_def)
  have h4: "fst ` set itens_exemplo = {Accepted}"
    by (simp add: itens_exemplo_def)
  then have h5: "\<forall>x\<in>set itens_exemplo. fst x = Accepted"
    by blast
  show ?thesis
    using h1 h2 h3 h4 h5
      raw_insert_idempotent [where h = "''ab''" and t = raw_exemplo and n = 1
        and a = CommitFails and p = "''{}''" and items = itens_exemplo
        and again = itens_recusados]
    by blast
qed

section \<open>Properties of the table name\<close>

lemma set_re_sub_underscores: "set (re_sub_underscores s) \<subseteq> set s"
  by (induction s rule: re_sub_underscores.induct) auto

lemma hd_re_sub_underscores: "\<exists>ys. re_sub_underscores (b # cs) = b # ys"
  by (induction cs arbitrary: b) auto

lemma no_double_re_sub: "no_double (re_sub_underscores s)"
proof (induction s rule: re_sub_underscores.induct)
  case (1 a b cs)
  obtain ys where y: "re_sub_underscores (b # cs) = b # ys"
    using hd_re_sub_underscores by blast
  show ?case using 1 y by auto
qed simp_all

lemma re_sub_fixed: "no_double s \<Longrightarrow> re_sub_underscores s = s"
  by (induction s rule: re_sub_underscores.induct) auto

lemma no_double_tl: "no_double (a # s) \<Longrightarrow> no_double s"
  by (cases s) auto

lemma no_double_append: "no_double (xs @ ys) \<Longrightarrow> no_double xs \<and> no_double ys"
proof (induction xs)
  case Nil
  then show ?case by simp
next
  case (Cons a xs)
  then have t: "no_double (xs @ ys)" using no_double_tl by simp
  show ?case
  proof (cases xs)
    case Nil
    then show ?thesis using t by simp
  next
    case (Cons b cs)
    then show ?thesis using Cons.IH [OF t] Cons.prems by simp
  qed
qed

lemma py_strip_split: "\<exists>xs ys. s = xs @ py_strip P s @ ys"
proof -
  let ?d = "dropWhile P s"
  have "s = takeWhile P s @ ?d" by simp
  moreover have "?d = rev (dropWhile P (rev ?d)) @ rev (takeWhile P (rev ?d))"
    by (metis rev_append rev_rev_ident takeWhile_dropWhile_id)
  ultimately have "s = takeWhile P s @ py_strip P s @ rev (takeWhile P (rev ?d))"
    by (simp add: py_strip_def)
  then show ?thesis by blast
qed

lemma no_double_strip: "no_double s \<Longrightarrow> no_double (py_strip P s)"
proof -
  assume n: "no_double s"
  obtain xs ys where "s = xs @ py_strip P s @ ys" using py_strip_split by blast
  then show ?thesis using n no_double_append by metis
qed

lemma set_py_strip: "set (py_strip P s) \<subseteq> set s"
proof -
  obtain xs ys where "s = xs @ py_strip P s @ ys" using py_strip_split by blast
  then have "set s = set xs \<union> set (py_strip P s) \<union> set ys" by (metis set_append Un_assoc)
  then show ?thesis by blast
qed

lemma py_strip_idem: "py_strip P (py_strip P s) = py_strip P s"
proof -
  let ?d = "dropWhile P s"
  let ?t = "py_strip P s"
  have t: "?t = rev (dropWhile P (rev ?d))" by (simp add: py_strip_def)
  have d: "?d = ?t @ rev (takeWhile P (rev ?d))"
    unfolding t by (metis rev_append rev_rev_ident takeWhile_dropWhile_id)
  have "dropWhile P ?t = ?t"
  proof (cases "?t = []")
    case True
    then show ?thesis by simp
  next
    case False
    then have "?d \<noteq> []" using d by (metis append_is_Nil_conv)
    then have "\<not> P (hd ?d)" by (rule hd_dropWhile)
    moreover have "hd ?d = hd ?t" using d False by (metis hd_append2)
    ultimately show ?thesis using False by (cases ?t) auto
  qed
  then have "py_strip P ?t = rev (dropWhile P (rev ?t))" by (simp add: py_strip_def)
  also have "\<dots> = rev (dropWhile P (dropWhile P (rev ?d)))" by (simp add: t)
  also have "\<dots> = ?t" by (simp add: t)
  finally show ?thesis .
qed

lemma code_underscore: "code CHR ''_'' = 95"
  by (simp add: code_def)

lemma az_lower: "is_az09us c \<Longrightarrow> py_lower_char c = c"
  by (auto simp: is_az09us_def py_lower_char_def code_underscore)

lemma az_class: "is_az09us c \<Longrightarrow> \<forall>n\<in>set cls. 200 \<le> n \<Longrightarrow> code c \<notin> set cls"
  by (auto simp: is_az09us_def code_underscore)

lemma az_maps:
  assumes a: "\<forall>c\<in>set s. is_az09us c"
  shows "py_lower s = s"
    and "\<forall>n\<in>set cls. 200 \<le> n \<Longrightarrow> re_sub_class cls rep s = s"
    and "re_sub_not_az09us s = s"
proof -
  show "py_lower s = s" using a by (simp add: py_lower_def az_lower map_idI)
  show "re_sub_not_az09us s = s" using a by (simp add: re_sub_not_az09us_def map_idI)
  assume "\<forall>n\<in>set cls. 200 \<le> n"
  then have "\<forall>c\<in>set s. code c \<notin> set cls" using a az_class by blast
  then show "re_sub_class cls rep s = s" by (simp add: re_sub_class_def map_idI)
qed

lemma az_re_sub_not: "\<forall>c\<in>set (re_sub_not_az09us s). is_az09us c"
  by (auto simp: re_sub_not_az09us_def is_az09us_def)

lemma normalizar_shape:
  "(\<forall>c\<in>set (normalizar_nome_tabela s). is_az09us c) \<and> no_double (normalizar_nome_tabela s)"
  unfolding normalizar_nome_tabela_def Let_def
  using az_re_sub_not set_re_sub_underscores set_py_strip no_double_re_sub no_double_strip
  by (meson subsetD)

lemma normalizar_fixed:
  assumes a: "\<forall>c\<in>set s. is_az09us c" and n: "no_double s"
  shows "normalizar_nome_tabela s = py_strip (\<lambda>c. c = CHR ''_'') s"
  unfolding normalizar_nome_tabela_def Let_def
  by (simp add: az_maps [OF a] re_sub_fixed [OF n])

lemma normalizar_idem: "normalizar_nome_tabela (normalizar_nome_tabela s) = normalizar_nome_tabela s"
proof -
  let ?o = "normalizar_nome_tabela s"
  have "normalizar_nome_tabela ?o = py_strip (\<lambda>c. c = CHR ''_'') ?o"
    using normalizar_shape [of s] by (intro normalizar_fixed) blast+
  also have "\<dots> = ?o"
    unfolding normalizar_nome_tabela_def Let_def by (rule py_strip_idem)
  finally show ?thesis .
qed

text \<open>
  Claim C5, as stated, fails: the normalization is not injective. The route names
  \<open>A B\<close> and \<open>a_b\<close> of tenant 7 are distinct and both map to the table \<open>raw_7_a_b\<close>.
\<close>

theorem nome_tabela_not_injective:
  "nome_tabela_raw 7 ''A B'' = nome_tabela_raw 7 ''a_b'' \<and> ''A B'' \<noteq> ''a_b'' \<and>
   nome_tabela_raw 7 ''A B'' = ''raw_7_a_b''"
  by code_simp

text \<open>
  Claim C5, amended. Within one tenant the table name that \<open>criar_tabela_raw_rota\<close>
  computes depends on the route name through its normalized form only: two route names
  map to the same table name exactly when their normalized forms are equal. Normalizing
  is idempotent, so the mapping is injective on the route names that are already in
  normalized form, and on the others only up to normalization.
\<close>

theorem nome_tabela_same_iff:
  "(nome_tabela_raw c n1 = nome_tabela_raw c n2) = (normalizar_nome_tabela n1 = normalizar_nome_tabela n2) \<and>
   normalizar_nome_tabela (normalizar_nome_tabela n1) = normalizar_nome_tabela n1 \<and>
   (normalizar_nome_tabela n1 = n1 \<and> normalizar_nome_tabela n2 = n2 \<and>
    nome_tabela_raw c n1 = nome_tabela_raw c n2 \<longrightarrow> n1 = n2)"
proof (intro conjI impI)
  show e: "(nome_tabela_raw c n1 = nome_tabela_raw c n2)
      = (normalizar_nome_tabela n1 = normalizar_nome_tabela n2)"
    by (simp add: nome_tabela_raw_def)
  show "normalizar_nome_tabela (normalizar_nome_tabela n1) = normalizar_nome_tabela n1"
    by (rule normalizar_idem)
  show "n1 = n2"
    if "normalizar_nome_tabela n1 = n1 \<and> normalizar_nome_tabela n2 = n2 \<and>
        nome_tabela_raw c n1 = nome_tabela_raw c n2"
    using that e by metis
qed

theorem nome_tabela_same_iff_witness:
  "normalizar_nome_tabela ''a_b'' = ''a_b'' \<and> normalizar_nome_tabela ''pedidos'' = ''pedidos'' \<and>
   nome_tabela_raw 7 ''a_b'' \<noteq> nome_tabela_raw 7 ''pedidos'' \<and>
   normalizar_nome_tabela ''A B'' = ''a_b'' \<and>
   nome_tabela_raw 7 ''A B'' = nome_tabela_raw 7 ''a_b''"
proof -
  have f0: "normalizar_nome_tabela ''A B'' = ''a_b''" by code_simp
  have f1: "normalizar_nome_tabela ''a_b'' = ''a_b''" by code_simp
  have f2: "normalizar_nome_tabela ''pedidos'' = ''pedidos''" by code_simp
  have ne: "''a_b'' \<noteq> ''pedidos''" by simp
  show ?thesis
    using f0 f1 f2 ne nome_tabela_same_iff [of 7 "''A B''" "''a_b''"]
      nome_tabela_same_iff [of 7 "''a_b''" "''pedidos''"]
    by metis
qed

section \<open>Properties of the rate limiter\<close>

lemma check_daily_limit_le:
  "daily_count rl \<le> DAILY_LIMIT \<Longrightarrow> daily_count (snd (check_daily_limit ck rl)) \<le> DAILY_LIMIT"
  by (simp add: check_daily_limit_def Let_def)

lemma wait_if_needed_le:
  "daily_count rl \<le> DAILY_LIMIT \<Longrightarrow> daily_count (snd (snd (wait_if_needed ck rl))) \<le> DAILY_LIMIT"
  by (auto simp: wait_if_needed_def check_daily_limit_def record_request_def Let_def DAILY_LIMIT_def
      split: prod.splits bool.splits if_splits)

lemma reachable_le: "reachable rl \<Longrightarrow> daily_count rl \<le> DAILY_LIMIT"
proof (induction rule: reachable.induct)
  case (init mps now)
  show ?case by (simp add: init_rate_limiter_def)
next
  case (check rl ck)
  then show ?case by (simp add: check_daily_limit_le)
next
  case (wait rl ck)
  then show ?case by (simp add: wait_if_needed_le)
next
  case (config rl m i)
  then show ?case by simp
qed

lemma check_count:
  "daily_count (snd (check_daily_limit ck rl)) =
     (if daily_reset_time rl \<le> now_check ck then 0 else daily_count rl)"
  by (simp add: check_daily_limit_def Let_def)

lemma wait_count:
  "daily_count (snd (snd (wait_if_needed ck rl))) =
     (if crossed ck rl then 1
      else if daily_count rl < DAILY_LIMIT then daily_count rl + 1 else daily_count rl)"
  by (auto simp: wait_if_needed_def check_daily_limit_def record_request_def Let_def DAILY_LIMIT_def
      crossed_def split: prod.splits bool.splits if_splits)

lemma wait_exhausted:
  "DAILY_LIMIT \<le> daily_count rl \<Longrightarrow> now_check ck < daily_reset_time rl \<Longrightarrow>
   now_wait ck < daily_reset_time rl \<Longrightarrow>
   fst (wait_if_needed ck rl) \<and> snd (snd (wait_if_needed ck rl)) = rl"
  by (auto simp: wait_if_needed_def check_daily_limit_def record_request_def Let_def DAILY_LIMIT_def
      split: prod.splits bool.splits if_splits)

text \<open>
  The quota can be used up: after \<open>n \<le> DAILY_LIMIT\<close> requests recorded at instant 0 of a
  limiter built at instant 0, the counter is \<open>n\<close>.
\<close>

lemma wait_at_0:
  "n < DAILY_LIMIT \<Longrightarrow>
   snd (snd (wait_if_needed (clock_at 0) ((init_rate_limiter 4 0)\<lparr>daily_count := n\<rparr>)))
     = (init_rate_limiter 4 0)\<lparr>daily_count := Suc n\<rparr>"
  by (simp add: wait_if_needed_def check_daily_limit_def record_request_def Let_def clock_at_def
      init_rate_limiter_def get_next_reset_time_def DAY_def)

lemma reachable_count:
  "n \<le> DAILY_LIMIT \<Longrightarrow> reachable ((init_rate_limiter 4 0)\<lparr>daily_count := n\<rparr>)"
proof (induction n)
  case 0
  have "(init_rate_limiter 4 0)\<lparr>daily_count := 0\<rparr> = init_rate_limiter 4 0"
    by (simp add: init_rate_limiter_def)
  then show ?case using reachable.init [of 4 0] by simp
next
  case (Suc n)
  then have "reachable ((init_rate_limiter 4 0)\<lparr>daily_count := n\<rparr>)" by simp
  then have "reachable (snd (snd (wait_if_needed (clock_at 0)
      ((init_rate_limiter 4 0)\<lparr>daily_count := n\<rparr>))))"
    by (rule reachable.wait)
  then show ?case using Suc.prems by (simp add: wait_at_0)
qed



section \<open>Properties of the content hash\<close>

lemma filter_key_single:
  "distinct (map fst zs) \<Longrightarrow> k \<in> set zs \<Longrightarrow> filter (\<lambda>x. fst k = fst x) zs = [k]"
proof (induction zs)
  case Nil
  then show ?case by simp
next
  case (Cons z zs)
  show ?case
  proof (cases "z = k")
    case True
    then have "\<forall>x\<in>set zs. fst k \<noteq> fst x" using Cons.prems by (auto simp: image_iff)
    then have "filter (\<lambda>x. fst k = fst x) zs = []" by (simp add: filter_empty_conv)
    then show ?thesis using True by simp
  next
    case False
    then have kz: "k \<in> set zs" using Cons.prems by simp
    then have "fst z \<noteq> fst k" using Cons.prems by (auto simp: image_iff)
    then show ?thesis using Cons.IH kz Cons.prems by auto
  qed
qed

lemma sort_key_fst_perm:
  fixes xs ys :: "('k::linorder \<times> 'v) list"
  assumes d: "distinct (map fst xs)" and m: "mset ys = mset xs"
  shows "sort_key fst ys = sort_key fst xs"
proof (rule properties_for_sort_key)
  show "mset (sort_key fst xs) = mset ys" using m by simp
  show "sorted (map fst (sort_key fst xs))" by simp
  fix k assume k: "k \<in> set (sort_key fst xs)"
  have dy: "distinct (map fst ys)"
    using d m by (metis mset_map mset_eq_imp_distinct_iff)
  have ds: "distinct (map fst (sort_key fst xs))"
    using d by (metis mset_map mset_eq_imp_distinct_iff mset_sort)
  have ky: "k \<in> set ys" using k m by (metis mset_eq_setD set_sort)
  show "filter (\<lambda>x. fst k = fst x) (sort_key fst xs) = filter (\<lambda>x. fst k = fst x) ys"
    using filter_key_single [OF ds k] filter_key_single [OF dy ky] by simp
qed

lemma key_perm_dumps:
  "key_perm a b \<Longrightarrow> wf_json a \<Longrightarrow> json_dumps fr True a = json_dumps fr True b"
proof (induction rule: key_perm.induct)
  case (same a)
  show ?case by simp
next
  case (list xs ys)
  have "map (json_dumps fr True) xs = map (json_dumps fr True) ys"
    using list.IH list.prems
  proof (induction xs ys rule: list_all2_induct)
    case Nil
    show ?case by simp
  next
    case (Cons x xs y ys)
    then show ?case by simp
  qed
  then show ?case by simp
next
  case (dict kvs kvs1 kvs2)
  let ?g = "\<lambda>(k, v). (k, json_dumps fr True v)"
  have e: "map ?g kvs = map ?g kvs1"
    using dict.IH dict.prems
  proof (induction kvs kvs1 rule: list_all2_induct)
    case Nil
    show ?case by simp
  next
    case (Cons x xs y ys)
    then show ?case by (cases x; cases y) auto
  qed
  have f: "map fst (map ?g kvs) = map fst kvs" by (induction kvs) auto
  have d: "distinct (map fst (map ?g kvs1))"
    using dict.prems f e by simp
  have m: "mset (map ?g kvs2) = mset (map ?g kvs1)"
    using dict.hyps by (metis mset_map)
  have "sort_key fst (map ?g kvs2) = sort_key fst (map ?g kvs1)"
    using d m by (rule sort_key_fst_perm)
  then show ?case using e by simp
qed

lemma key_perm_swap:
  "key_perm (JDict [(''id'', JInt 7), (''nome'', JStr ''Ana'')])
            (JDict [(''nome'', JStr ''Ana''), (''id'', JInt 7)])"
proof (rule key_perm.dict)
  show "list_all2 (\<lambda>a b. fst a = fst b \<and> key_perm (snd a) (snd b))
          [(''id'', JInt 7), (''nome'', JStr ''Ana'')] [(''id'', JInt 7), (''nome'', JStr ''Ana'')]"
    by (simp add: key_perm.same)
  show "mset [(''id'', JInt 7), (''nome'', JStr ''Ana'')] = mset [(''nome'', JStr ''Ana''), (''id'', JInt 7)]"
    by simp
qed

text \<open>
  Claim C6. For every payload \<open>P\<close> (a value with distinct keys in each dict) and every
  key-order permutation \<open>P'\<close> of it, the content hash of \<open>P'\<close> equals the content hash of
  \<open>P\<close>, whatever the hash function applied to the canonical text; and the extraction worker
  and the detail worker compute the same hash of the same payload.
\<close>

theorem hash_stable_under_key_order:
  "(key_perm P P' \<and> wf_json P \<longrightarrow>
      hash_content_etl lib P = hash_content_etl lib P' \<and>
      hash_content_detalhes lib P = hash_content_detalhes lib P') \<and>
   hash_content_detalhes lib P = hash_content_etl lib P"
  using key_perm_dumps [of P P' "float_repr lib"]
  by (auto simp: hash_content_etl_def hash_content_detalhes_def)

theorem hash_stable_under_key_order_witness:
  "key_perm (JDict [(''id'', JInt 7), (''nome'', JStr ''Ana'')])
            (JDict [(''nome'', JStr ''Ana''), (''id'', JInt 7)]) \<and>
   wf_json (JDict [(''id'', JInt 7), (''nome'', JStr ''Ana'')]) \<and>
   hash_content_etl lib0 (JDict [(''id'', JInt 7), (''nome'', JStr ''Ana'')])
     = hash_content_etl lib0 (JDict [(''nome'', JStr ''Ana''), (''id'', JInt 7)])"
proof -
  have w: "wf_json (JDict [(''id'', JInt 7), (''nome'', JStr ''Ana'')])" by simp
  show ?thesis
    using key_perm_swap w
      hash_stable_under_key_order [of "JDict [(''id'', JInt 7), (''nome'', JStr ''Ana'')]"
        "JDict [(''nome'', JStr ''Ana''), (''id'', JInt 7)]" lib0]
    by blast
qed

section \<open>Properties of the response shape\<close>

text \<open>
  Claim C3, as stated, fails on its last clause: a response that is neither a dict nor a
  list is not wrapped as a single item. The JSON number 42 yields no item at all.
\<close>

theorem response_items_scalar_not_wrapped:
  "response_items (JInt 42) = Inr ([], False) \<and>
   response_items (JInt 42) \<noteq> Inr ([JInt 42], False)"
  by (simp add: response_items_def)

lemma response_items_data:
  "map_of d ''data'' = Some (JList xs) \<Longrightarrow>
   response_items (JDict d) =
     (case more_pages d of Inl e \<Rightarrow> Inl e | Inr m \<Rightarrow> Inr (xs, xs \<noteq> [] \<and> m))"
  by (auto simp: response_items_def split: sum.splits)

lemma response_items_no_data:
  "\<forall>xs. map_of d ''data'' \<noteq> Some (JList xs) \<Longrightarrow>
   response_items (JDict d) = Inr ([JDict d], False)"
  by (auto simp: response_items_def split: option.splits json.splits)

text \<open>
  Claim C3, amended. A dict with a list-valued \<open>data\<close> field yields that list as one page;
  the page continues exactly when the list is not empty and \<open>next_page_url\<close> is not null
  or \<open>current_page\<close> (default 0) is below \<open>last_page\<close> or below \<open>total_pages\<close> (default
  1), and a comparison that raises leaves the run with the exception. A bare list yields
  itself as a single terminal page. A dict without a list-valued \<open>data\<close> field is wrapped
  as a single item with no continuation. Any other value (null, a boolean, a number, a
  string) yields no item and no continuation.
\<close>

theorem response_items_shapes:
  "(map_of d ''data'' = Some (JList xs) \<longrightarrow>
      response_items (JDict d) =
        (case more_pages d of Inl e \<Rightarrow> Inl e | Inr m \<Rightarrow> Inr (xs, xs \<noteq> [] \<and> m))) \<and>
   ((\<forall>ys. map_of d ''data'' \<noteq> Some (JList ys)) \<longrightarrow>
      response_items (JDict d) = Inr ([JDict d], False)) \<and>
   more_pages d =
     (if dict_get d ''next_page_url'' JNull \<noteq> JNull then Inr True
      else case py_lt (dict_get d ''current_page'' (JInt 0)) (dict_get d ''last_page'' (JInt 1)) of
             Inl e \<Rightarrow> Inl e
           | Inr True \<Rightarrow> Inr True
           | Inr False \<Rightarrow>
               py_lt (dict_get d ''current_page'' (JInt 0)) (dict_get d ''total_pages'' (JInt 1))) \<and>
   response_items (JList xs) = Inr (xs, False) \<and>
   response_items JNull = Inr ([], False) \<and>
   response_items (JBool b) = Inr ([], False) \<and>
   response_items (JInt i) = Inr ([], False) \<and>
   response_items (JFloat r) = Inr ([], False) \<and>
   response_items (JStr s) = Inr ([], False)"
  using response_items_data [of d xs] response_items_no_data [of d]
  by (simp add: more_pages_def) (simp add: response_items_def)

theorem response_items_shapes_witness:
  "map_of [(''data'', JList [JDict [(''id'', JInt 1)]]), (''current_page'', JInt 1),
           (''last_page'', JInt 3)] ''data'' = Some (JList [JDict [(''id'', JInt 1)]]) \<and>
   response_items (JDict [(''data'', JList [JDict [(''id'', JInt 1)]]), (''current_page'', JInt 1),
           (''last_page'', JInt 3)]) = Inr ([JDict [(''id'', JInt 1)]], True) \<and>
   (\<forall>ys. map_of [(''id'', JInt 8)] ''data'' \<noteq> Some (JList ys)) \<and>
   response_items (JDict [(''id'', JInt 8)]) = Inr ([JDict [(''id'', JInt 8)]], False)"
proof -
  let ?d = "[(''data'', JList [JDict [(''id'', JInt 1)]]), (''current_page'', JInt 1),
           (''last_page'', JInt 3)]"
  have h1: "map_of ?d ''data'' = Some (JList [JDict [(''id'', JInt 1)]])" by simp
  have h2: "\<forall>ys. map_of [(''id'', JInt 8)] ''data'' \<noteq> Some (JList ys)" by simp
  have m: "more_pages ?d = Inr True" by (simp add: more_pages_def dict_get_def)
  from response_items_shapes [of ?d "[JDict [(''id'', JInt 1)]]"] h1
  have r1: "response_items (JDict ?d) = Inr ([JDict [(''id'', JInt 1)]], True)"
    by (simp add: m)
  from response_items_shapes [of "[(''id'', JInt 8)]"] h2
  have r2: "response_items (JDict [(''id'', JInt 8)]) = Inr ([JDict [(''id'', JInt 8)]], False)"
    by blast
  show ?thesis using h1 h2 r1 r2 by blast
qed

section \<open>Properties of the detail fetch\<close>

lemma fetch_loop_404:
  "retry_count < RETRY_MAX_DETALHES \<Longrightarrow> \<not> flags retry_count \<Longrightarrow>
   resp retry_count = Resp 404 body \<Longrightarrow>
   fetch_loop lib pedido_id flags resp retry_count nreq sl =
     \<lparr>fetch_result = None, fetch_status = ''not_found'', fetch_requests = nreq + 1,
      fetch_sleeps = sl\<rparr>"
  by (subst fetch_loop.simps) simp

lemma process_not_found:
  "\<not> dw_stop_flag w \<Longrightarrow> \<not> daily_limit_hit w \<Longrightarrow>
   process_completed w results [(pedido_id, Returned None ''not_found'')] =
     (results, w\<lparr>error_count := error_count w + 1\<rparr>)"
  by simp




section \<open>Repeated bronze runs\<close>

lemma processar_abort:
  "tx_abortada (processar_registro lib env us cid st r)
     = (tx_abortada st \<or> list_ex (\<lambda>row. armazena env row = ErroServidor) (novas_linhas lib us cid [r]))"
  by (simp add: processar_registro_def novas_linhas_def split: sum.splits insert_outcome.splits)

lemma processar_rows:
  "\<not> tx_abortada (processar_registro lib env us cid st r) \<Longrightarrow>
   bronze_rows (processar_registro lib env us cid st r)
     = bronze_rows st @ filter (\<lambda>row. armazena env row = Inserido) (novas_linhas lib us cid [r])"
  by (simp add: processar_registro_def novas_linhas_def split: sum.splits insert_outcome.splits if_splits)

lemma fold_abort:
  "tx_abortada (foldl (processar_registro lib env us cid) st rs)
     = (tx_abortada st \<or> list_ex (\<lambda>row. armazena env row = ErroServidor) (novas_linhas lib us cid rs))"
proof (induction rs arbitrary: st)
  case Nil
  show ?case by (simp add: novas_linhas_def)
next
  case (Cons r rs)
  have "novas_linhas lib us cid (r # rs) = novas_linhas lib us cid [r] @ novas_linhas lib us cid rs"
    by (simp add: novas_linhas_def)
  then show ?case
    using Cons.IH [of "processar_registro lib env us cid st r"] processar_abort [of lib env us cid st r]
    by simp
qed

lemma fold_rows:
  "\<not> tx_abortada (foldl (processar_registro lib env us cid) st rs) \<Longrightarrow>
   bronze_rows (foldl (processar_registro lib env us cid) st rs)
     = bronze_rows st @ filter (\<lambda>row. armazena env row = Inserido) (novas_linhas lib us cid rs)"
proof (induction rs arbitrary: st)
  case Nil
  show ?case by (simp add: novas_linhas_def)
next
  case (Cons r rs)
  let ?nxt = "processar_registro lib env us cid st r"
  have n: "\<not> tx_abortada (foldl (processar_registro lib env us cid) ?nxt rs)"
    using Cons.prems by simp
  then have "\<not> tx_abortada ?nxt" using fold_abort [of lib env us cid ?nxt rs] by simp
  then have a: "bronze_rows ?nxt
      = bronze_rows st @ filter (\<lambda>row. armazena env row = Inserido) (novas_linhas lib us cid [r])"
    by (rule processar_rows)
  have b: "bronze_rows (foldl (processar_registro lib env us cid) ?nxt rs)
      = bronze_rows ?nxt @ filter (\<lambda>row. armazena env row = Inserido) (novas_linhas lib us cid rs)"
    using n by (rule Cons.IH)
  have "novas_linhas lib us cid (r # rs) = novas_linhas lib us cid [r] @ novas_linhas lib us cid rs"
    by (simp add: novas_linhas_def)
  then show ?case using a b by simp
qed

lemma bronze_run_tables:
  "raw_tbl (fst (bronze_run lib env t db)) = raw_tbl db \<and>
   usuarios_tbl (fst (bronze_run lib env t db)) = usuarios_tbl db"
  by (simp add: bronze_run_def Let_def split: sum.splits)

lemma bronze_run_acrescimo:
  "bronze_of (fst (bronze_run lib env t db)) = bronze_of db @ acrescimo lib env t db"
proof (cases "extrair_cliente_id_da_tabela t")
  case (Inl e)
  then show ?thesis by (simp add: bronze_run_def acrescimo_def)
next
  case (Inr cid)
  let ?us = "usuarios_tbl db"
  let ?ex = "case bronze_tbl db of None \<Rightarrow> [] | Some t \<Rightarrow> t"
  let ?ini = "\<lparr>registros_processados = 0, registros_com_erro = 0, bronze_rows = ?ex,
     tx_abortada = False, ops = [CreateTable, SelectExists, SelectCount, SelectRaw]\<rparr>"
  let ?st = "foldl (processar_registro lib env ?us cid) ?ini (raw_tbl db)"
  let ?bad = "ddl env = CreateRecusado \<or> (ddl env = IndiceRecusado \<and> bronze_tbl db = None)"
  show ?thesis
  proof (cases ?bad)
    case True
    then show ?thesis using Inr by (auto simp: bronze_run_def acrescimo_def)
  next
    case False
    note good = False
    show ?thesis
    proof (cases "raw_tbl db = []")
      case True
      then show ?thesis using Inr good
        by (simp add: bronze_run_def acrescimo_def bronze_of_def novas_linhas_def Let_def)
    next
      case False
      have ab: "tx_abortada ?st
          = list_ex (\<lambda>row. armazena env row = ErroServidor) (novas_linhas lib ?us cid (raw_tbl db))"
        using fold_abort [of lib env ?us cid ?ini "raw_tbl db"] by simp
      have g1: "ddl env \<noteq> CreateRecusado" using good by blast
      have g2: "\<not> (ddl env = IndiceRecusado \<and> bronze_tbl db = None)" using good by blast
      have run: "bronze_run lib env t db
          = (db\<lparr>bronze_tbl := Some (if tx_abortada ?st then ?ex else bronze_rows ?st)\<rparr>,
             ops ?st @ [CountBronze],
             Concluido (registros_processados ?st) (registros_com_erro ?st)
               (length (if tx_abortada ?st then ?ex else bronze_rows ?st)))"
        unfolding bronze_run_def Let_def
        by (simp only: Inr sum.case g1 g2 if_False False list.size(3) length_0_conv
            bronze_db.update_convs bronze_db.surjective) simp
      have l: "bronze_of (fst (bronze_run lib env t db)) = (if tx_abortada ?st then ?ex else bronze_rows ?st)"
        unfolding run by (simp add: bronze_of_def)
      have acr: "acrescimo lib env t db
          = (if list_ex (\<lambda>row. armazena env row = ErroServidor) (novas_linhas lib ?us cid (raw_tbl db))
             then []
             else filter (\<lambda>row. armazena env row = Inserido) (novas_linhas lib ?us cid (raw_tbl db)))"
        unfolding acrescimo_def Let_def
        using g1 g2 by (simp only: Inr sum.case if_False simp_thms)
      have r: "acrescimo lib env t db
          = (if tx_abortada ?st then []
             else filter (\<lambda>row. armazena env row = Inserido) (novas_linhas lib ?us cid (raw_tbl db)))"
        unfolding acr ab by (rule refl)
      have e: "bronze_of db = ?ex" by (simp add: bronze_of_def)
      show ?thesis
      proof (cases "tx_abortada ?st")
        case True
        then show ?thesis using l r e by simp
      next
        case False
        then have "bronze_rows ?st
            = bronze_rows ?ini @ filter (\<lambda>row. armazena env row = Inserido) (novas_linhas lib ?us cid (raw_tbl db))"
          by (rule fold_rows)
        then show ?thesis using l r e False by simp
      qed
    qed
  qed
qed

lemma acrescimo_all:
  assumes c: "extrair_cliente_id_da_tabela t = Inr cid"
    and d: "ddl env = Criada"
    and a: "\<forall>row\<in>set (novas_linhas lib (usuarios_tbl db) cid (raw_tbl db)). armazena env row = Inserido"
  shows "acrescimo lib env t db = novas_linhas lib (usuarios_tbl db) cid (raw_tbl db)"
proof -
  let ?l = "novas_linhas lib (usuarios_tbl db) cid (raw_tbl db)"
  have "\<not> list_ex (\<lambda>row. armazena env row = ErroServidor) ?l"
    using a by (auto simp: list_ex_iff)
  moreover have "filter (\<lambda>row. armazena env row = Inserido) ?l = ?l"
    using a by (simp add: filter_id_conv)
  ultimately show ?thesis using c d by (simp add: acrescimo_def Let_def)
qed

lemma bronze_runs_rows:
  "extrair_cliente_id_da_tabela t = Inr cid \<Longrightarrow>
   \<forall>env\<in>set envs. ddl env = Criada \<and>
      (\<forall>row\<in>set (novas_linhas lib (usuarios_tbl db) cid (raw_tbl db)). armazena env row = Inserido) \<Longrightarrow>
   bronze_of (bronze_runs lib envs t db)
     = bronze_of db @ concat (replicate (length envs) (novas_linhas lib (usuarios_tbl db) cid (raw_tbl db)))"
proof (induction envs arbitrary: db)
  case Nil
  show ?case by (simp add: bronze_runs_def)
next
  case (Cons env envs)
  let ?db1 = "fst (bronze_run lib env t db)"
  let ?l = "novas_linhas lib (usuarios_tbl db) cid (raw_tbl db)"
  have same: "raw_tbl ?db1 = raw_tbl db" "usuarios_tbl ?db1 = usuarios_tbl db"
    using bronze_run_tables [of lib env t db] by simp_all
  have "acrescimo lib env t db = ?l"
    using Cons.prems by (intro acrescimo_all) simp_all
  then have b: "bronze_of ?db1 = bronze_of db @ ?l"
    using bronze_run_acrescimo [of lib env t db] by simp
  have "\<forall>env\<in>set envs. ddl env = Criada \<and>
      (\<forall>row\<in>set (novas_linhas lib (usuarios_tbl ?db1) cid (raw_tbl ?db1)). armazena env row = Inserido)"
    using Cons.prems(2) same by simp
  with Cons.prems(1) have "bronze_of (bronze_runs lib envs t ?db1)
      = bronze_of ?db1 @ concat (replicate (length envs) (novas_linhas lib (usuarios_tbl ?db1) cid (raw_tbl ?db1)))"
    by (rule Cons.IH)
  moreover have "bronze_runs lib (env # envs) t db = bronze_runs lib envs t ?db1"
    by (simp add: bronze_runs_def)
  ultimately show ?case using same b by simp
qed

lemma length_novas_linhas:
  "length (novas_linhas lib us cid rs) = length (filter (parseable lib us cid) rs)"
  by (induction rs) (auto simp: novas_linhas_def parseable_def split: sum.splits)

lemma length_concat_replicate: "length (concat (replicate k xs)) = k * length xs"
  by (induction k) simp_all




section \<open>Properties of the buyer lookup\<close>

lemma texto_util_texto:
  "v = JNull \<or> (\<exists>s. v = JStr s) \<Longrightarrow> texto_util v = Inr (texto v)"
  by (auto simp: texto_util_def texto_def py_strip_def)

text \<open>
  For a buyer whose document and name are strings or null, the lookup is the one the
  code's comments describe: by document first, by name when the document gives no row,
  and no link when neither does.
\<close>

lemma mapear_documento_texto:
  assumes d: "doc = JNull \<or> (\<exists>s. doc = JStr s)" and n: "nome = JNull \<or> (\<exists>s. nome = JStr s)"
  shows "mapear_usuario_divisao us doc nome =
     (case (case texto doc of Some t \<Rightarrow> por_documento us t | None \<Rightarrow> None) of
        Some u \<Rightarrow> vinculo (Some u)
      | None \<Rightarrow> vinculo (case texto nome of Some t \<Rightarrow> por_nome us t | None \<Rightarrow> None))"
  using texto_util_texto [OF d] texto_util_texto [OF n]
  by (simp add: mapear_usuario_divisao_def mapear_try_def mapear_por_nome_def vinculo_def
      split: option.splits)

text \<open>
  A row whose payload is a dict and whose amounts convert is inserted with the link the
  lookup gave, null or not.
\<close>

lemma preparar_registro_dict:
  assumes p: "rr_payload r = JDict p" and e: "extrair_dados_pedido lib (JDict p) = Some dados"
    and v: "valor_decimal lib (d_valor_total dados) = Inr vt"
      "valor_decimal lib (d_valor_desconto dados) = Inr vd"
      "valor_decimal lib (d_valor_liquido dados) = Inr vl"
  shows "\<exists>row. preparar_registro lib us cid r = Inr row \<and>
     (b_usuario_id row, b_divisao_id row)
       = mapear_usuario_divisao us (d_comprador_documento dados) (d_comprador_nome dados)"
  using p e v by (simp add: preparar_registro_def split: prod.splits)

text \<open>
  Claim C8 on the code, at a raw row whose buyer has the numeric document 555 and the name
  Ana, with an active user named Ana in \<open>usuarios\<close>: the name matches, and the same buyer
  without a document is linked to user 1 of division 4; with the numeric document the
  lookup raises on \<open>comprador_documento.strip()\<close>, the name is never tried, and the bronze
  row is inserted with a null link.
\<close>

theorem documento_numerico_sem_vinculo:
  "por_nome [ana] ''Ana'' = Some ana \<and>
   mapear_usuario_divisao [ana] JNull (JStr ''Ana'') = (Some 1, Some 4) \<and>
   mapear_try [ana] (JInt 555) (JStr ''Ana'') = Inl AttributeError \<and>
   mapear_usuario_divisao [ana] (JInt 555) (JStr ''Ana'') = (None, None) \<and>
   map (\<lambda>row. (b_raw_id row, b_usuario_id row, b_divisao_id row))
     (bronze_of (fst (bronze_run lib0 toma_tudo ''tbl_7_raw''
        (db_exemplo [JDict [(''id'', JInt 9),
           (''comprador'', JDict [(''nome'', JStr ''Ana''), (''documento'', JInt 555)])]]))))
     = [(1, None, None)]"
proof -
  have nome: "por_nome [ana] ''Ana'' = Some ana" by code_simp
  have sem_doc: "mapear_usuario_divisao [ana] JNull (JStr ''Ana'') = (Some 1, Some 4)"
    by code_simp
  have raises: "mapear_try [ana] (JInt 555) (JStr ''Ana'') = Inl AttributeError"
    by (simp add: mapear_try_def texto_util_def)
  then have sem_vinculo: "mapear_usuario_divisao [ana] (JInt 555) (JStr ''Ana'') = (None, None)"
    by (simp add: mapear_usuario_divisao_def)
  have linha: "map (\<lambda>row. (b_raw_id row, b_usuario_id row, b_divisao_id row))
     (bronze_of (fst (bronze_run lib0 toma_tudo ''tbl_7_raw''
        (db_exemplo [JDict [(''id'', JInt 9),
           (''comprador'', JDict [(''nome'', JStr ''Ana''), (''documento'', JInt 555)])]]))))
     = [(1, None, None)]"
    by code_simp
  show ?thesis using nome sem_doc raises sem_vinculo linha by simp
qed

section \<open>Properties of the tenant id\<close>

lemma hd_py_split: "\<exists>ps. py_split sep s = takeWhile (\<lambda>c. c \<noteq> sep) s # ps"
  by (induction s) auto

lemma extrair_cliente_id_eq:
  "extrair_cliente_id_da_tabela t =
     (case py_int (takeWhile (\<lambda>c. c \<noteq> CHR ''_'') (py_replace ''tbl_'' [] t)) of
        None \<Rightarrow> Inl ValueError | Some n \<Rightarrow> Inr n)"
proof -
  obtain ps where "py_split CHR ''_'' (py_replace ''tbl_'' [] t)
      = takeWhile (\<lambda>c. c \<noteq> CHR ''_'') (py_replace ''tbl_'' [] t) # ps"
    using hd_py_split by blast
  then show ?thesis by (simp add: extrair_cliente_id_da_tabela_def)
qed

lemma executar_detalhes_eq:
  "t \<noteq> [] \<Longrightarrow> url \<noteq> [] \<Longrightarrow>
   executar_detalhes t url =
     (case py_int (takeWhile (\<lambda>c. c \<noteq> CHR ''_'') (py_replace ''tbl_'' [] t)) of
        None \<Rightarrow> Aviso ''Nao foi possivel identificar o Cliente ID'' | Some n \<Rightarrow> Prossegue n)"
proof -
  assume a: "t \<noteq> []" "url \<noteq> []"
  obtain ps where "py_split CHR ''_'' (py_replace ''tbl_'' [] t)
      = takeWhile (\<lambda>c. c \<noteq> CHR ''_'') (py_replace ''tbl_'' [] t) # ps"
    using hd_py_split by blast
  then show ?thesis using a by (simp add: executar_detalhes_def)
qed

lemma executar_detalhes_aviso:
  "py_int (takeWhile (\<lambda>c. c \<noteq> CHR ''_'') (py_replace ''tbl_'' [] t)) = None \<Longrightarrow>
   \<exists>m. executar_detalhes t url = Aviso m"
proof -
  assume n: "py_int (takeWhile (\<lambda>c. c \<noteq> CHR ''_'') (py_replace ''tbl_'' [] t)) = None"
  show ?thesis
  proof (cases "t = [] \<or> url = []")
    case True
    then show ?thesis by (auto simp: executar_detalhes_def)
  next
    case False
    then show ?thesis using executar_detalhes_eq [of t url] n by simp
  qed
qed

text \<open>
  Claim C10. The bronze normalizer and the detail worker's launcher both take the tenant id
  of a table name by deleting every occurrence of \<open>tbl_\<close> and reading the text before
  the first underscore as an integer. When that text is not an integer, the bronze run
  ends with an error before it has executed any statement on the tables, and the
  launcher returns after a warning, before the worker that issues the HTTP requests
  exists.
\<close>

theorem cliente_id_da_tabela:
  "extrair_cliente_id_da_tabela t =
     (case py_int (takeWhile (\<lambda>c. c \<noteq> CHR ''_'') (py_replace ''tbl_'' [] t)) of
        None \<Rightarrow> Inl ValueError | Some n \<Rightarrow> Inr n) \<and>
   (t \<noteq> [] \<and> url \<noteq> [] \<longrightarrow>
      executar_detalhes t url =
        (case py_int (takeWhile (\<lambda>c. c \<noteq> CHR ''_'') (py_replace ''tbl_'' [] t)) of
           None \<Rightarrow> Aviso ''Nao foi possivel identificar o Cliente ID'' | Some n \<Rightarrow> Prossegue n)) \<and>
   (py_int (takeWhile (\<lambda>c. c \<noteq> CHR ''_'') (py_replace ''tbl_'' [] t)) = None \<longrightarrow>
      bronze_run lib env t db = (db, [], RunError ValueError) \<and>
      (\<exists>m. executar_detalhes t url = Aviso m))"
  using extrair_cliente_id_eq [of t] executar_detalhes_eq [of t url] executar_detalhes_aviso [of t url]
  by (auto simp: bronze_run_def)

theorem cliente_id_da_tabela_witness:
  "py_int (takeWhile (\<lambda>c. c \<noteq> CHR ''_'') (py_replace ''tbl_'' [] ''raw_7_pedidos'')) = None \<and>
   bronze_run lib0 toma_tudo ''raw_7_pedidos'' (db_exemplo [JDict [(''id'', JInt 8)]])
     = (db_exemplo [JDict [(''id'', JInt 8)]], [], RunError ValueError) \<and>
   executar_detalhes ''raw_7_pedidos'' ''http://api/{pedido_id}''
     = Aviso ''Nao foi possivel identificar o Cliente ID'' \<and>
   extrair_cliente_id_da_tabela ''tbl_15_pedidos_raw'' = Inr 15 \<and>
   executar_detalhes ''tbl_15_pedidos_bronze'' ''http://api/{pedido_id}'' = Prossegue 15"
proof -
  have n: "py_int (takeWhile (\<lambda>c. c \<noteq> CHR ''_'') (py_replace ''tbl_'' [] ''raw_7_pedidos'')) = None"
    by code_simp
  have p: "py_int (takeWhile (\<lambda>c. c \<noteq> CHR ''_'') (py_replace ''tbl_'' [] ''tbl_15_pedidos_raw'')) = Some 15"
    by code_simp
  have q: "py_int (takeWhile (\<lambda>c. c \<noteq> CHR ''_'') (py_replace ''tbl_'' [] ''tbl_15_pedidos_bronze'')) = Some 15"
    by code_simp
  have a: "''raw_7_pedidos'' \<noteq> [] \<and> ''http://api/{pedido_id}'' \<noteq> []" by simp
  have b: "''tbl_15_pedidos_bronze'' \<noteq> [] \<and> ''http://api/{pedido_id}'' \<noteq> []" by simp
  show ?thesis
    using n p q a b
      cliente_id_da_tabela [of "''raw_7_pedidos''" "''http://api/{pedido_id}''" lib0 toma_tudo
        "db_exemplo [JDict [(''id'', JInt 8)]]"]
      cliente_id_da_tabela [of "''tbl_15_pedidos_raw''" "''http://api/{pedido_id}''" lib0 toma_tudo
        "db_exemplo [JDict [(''id'', JInt 8)]]"]
      cliente_id_da_tabela [of "''tbl_15_pedidos_bronze''" "''http://api/{pedido_id}''" lib0 toma_tudo
        "db_exemplo [JDict [(''id'', JInt 8)]]"]
    by simp
qed

section \<open>Properties of cancellation\<close>


text \<open>Runs, event by event.\<close>

lemma exec_Cons: "exec lib (e # es) s = exec lib es (step lib s e)"
  by (simp add: exec_def)

lemma exec_invariant:
  assumes "P s" and "\<And>x e. e \<in> set es \<Longrightarrow> P x \<Longrightarrow> P (step lib x e)"
  shows "P (exec lib es s)"
  using assms
proof (induction es arbitrary: s)
  case Nil
  then show ?case by (simp add: exec_def)
next
  case (Cons e es)
  have "P (step lib s e)" using Cons.prems by simp
  then have "P (exec lib es (step lib s e))" using Cons.prems(2) by (intro Cons.IH) simp_all
  then show ?case by (simp add: exec_Cons)
qed

text \<open>What the stop and the steps of the two threads leave alone.\<close>

lemma put_data_items: "put_nowait q STOP = Some q' \<Longrightarrow> data_items q' = data_items q"
  by (auto simp: put_nowait_def data_items_def split: if_splits)

lemma put_head:
  "put_nowait q x = Some q' \<Longrightarrow> q \<noteq> [] \<Longrightarrow> q' \<noteq> [] \<and> hd q' = hd q"
  by (auto simp: put_nowait_def split: if_splits)

lemma writer_next_hd:
  "writer_next s = (case writer_pc s of
        WWrite p h \<Rightarrow> [(p, h)]
      | WGet \<Rightarrow> (if data_queue s = [] then [] else case hd (data_queue s) of Item p h \<Rightarrow> [(p, h)] | STOP \<Rightarrow> [])
      | _ \<Rightarrow> [])"
  by (simp add: writer_next_def split: writer_pc.splits list.splits qitem.splits)

lemma etl_stop_keeps:
  "stop_flag (etl_stop s) \<and> tabela_destino (etl_stop s) = tabela_destino s \<and>
   total_registros (etl_stop s) = total_registros s \<and> current_page (etl_stop s) = current_page s \<and>
   data_items (data_queue (etl_stop s)) = data_items (data_queue s) \<and>
   producer_pc (etl_stop s) = producer_pc s \<and> writer_pc (etl_stop s) = writer_pc s \<and>
   status (etl_stop s) = status s \<and> requisicoes (etl_stop s) = requisicoes s \<and>
   data_queue (etl_stop s) \<noteq> []"
  by (auto simp: etl_stop_def Let_def put_data_items put_nowait_def split: option.splits if_splits)

lemma etl_stop_next: "writer_next (etl_stop s) = writer_next s"
  by (auto simp: etl_stop_def Let_def writer_next_def put_nowait_def
      split: option.splits if_splits writer_pc.splits list.splits qitem.splits)

lemma writer_step_other:
  "stop_flag (writer_step a s) = stop_flag s \<and> producer_pc (writer_step a s) = producer_pc s \<and>
   current_page (writer_step a s) = current_page s \<and> status (writer_step a s) = status s \<and>
   requisicoes (writer_step a s) = requisicoes s"
  by (auto simp: writer_step_def split: writer_pc.splits list.splits qitem.splits prod.splits sum.splits)

lemma writer_step_queue:
  "set (data_items (data_queue (writer_step a s))) \<subseteq> set (data_items (data_queue s))"
  by (auto simp: writer_step_def data_items_def
      split: writer_pc.splits list.splits qitem.splits prod.splits sum.splits)

lemma producer_step_other:
  "stop_flag (producer_step lib r a s) = stop_flag s \<and>
   tabela_destino (producer_step lib r a s) = tabela_destino s \<and>
   total_registros (producer_step lib r a s) = total_registros s \<and>
   writer_pc (producer_step lib r a s) = writer_pc s"
  by (auto simp: producer_step_def after_loop_def finish_def marca_erro_def
      split: producer_pc.splits list.splits option.splits page_result.splits sum.splits prod.splits)

lemma producer_step_queue:
  "data_queue (producer_step lib r a s) = data_queue s \<or>
   (\<exists>x. put_nowait (data_queue s) x = Some (data_queue (producer_step lib r a s)))"
  by (auto simp: producer_step_def after_loop_def finish_def marca_erro_def
      split: producer_pc.splits list.splits option.splits page_result.splits sum.splits prod.splits)

lemma write_item_grows:
  "write_item a (t, n) x = Inl (t', n') \<or> write_item a (t, n) x = Inr (t', n') \<Longrightarrow>
   (t' = t \<or> t' = t @ [linha x]) \<and> n \<le> n' \<and> n' \<le> n + 1"
  by (cases x)
    (auto simp: write_item_def insert_on_conflict_do_nothing_def linha_def Let_def split: if_splits)

text \<open>The flag stays up, and no request is sent under it.\<close>

lemma step_flag: "stop_flag x \<Longrightarrow> stop_flag (step lib x e)"
  using etl_stop_keeps [of x] writer_step_other producer_step_other
  by (cases e) simp_all

lemma producer_step_requisicoes:
  "stop_flag s \<Longrightarrow> requisicoes (producer_step lib r a s) = requisicoes s"
  by (auto simp: producer_step_def after_loop_def finish_def marca_erro_def
      split: producer_pc.splits list.splits option.splits page_result.splits sum.splits prod.splits)

lemma exec_requisicoes:
  assumes f: "stop_flag s"
  shows "stop_flag (exec lib es s) \<and> requisicoes (exec lib es s) = requisicoes s"
proof (rule exec_invariant [where P = "\<lambda>x. stop_flag x \<and> requisicoes x = requisicoes s"])
  show "stop_flag s \<and> requisicoes s = requisicoes s" using f by simp
next
  fix x :: etl_worker and e
  assume "stop_flag x \<and> requisicoes x = requisicoes s"
  then show "stop_flag (step lib x e) \<and> requisicoes (step lib x e) = requisicoes s"
    using step_flag [of x lib e] etl_stop_keeps [of x] writer_step_other producer_step_requisicoes
    by (cases e) simp_all
qed

text \<open>
  The writer under the flag: it adds at most the entry it has in hand, and it does not
  come back to \<open>get\<close>.
\<close>

lemma writer_step_flag:
  assumes f: "stop_flag s" and g: "writer_pc s = WGet \<longrightarrow> data_queue s \<noteq> []"
  shows "\<exists>zs. tabela_destino (writer_step a s) = tabela_destino s @ zs \<and>
           length zs + length (writer_next (writer_step a s)) \<le> length (writer_next s) \<and>
           set zs \<union> linha ` set (writer_next (writer_step a s)) \<subseteq> linha ` set (writer_next s)"
    and "total_registros s \<le> total_registros (writer_step a s)"
    and "total_registros (writer_step a s) + length (writer_next (writer_step a s))
           \<le> total_registros s + length (writer_next s)"
    and "writer_pc (writer_step a s) \<noteq> WGet"
proof -
  have "(\<exists>zs. tabela_destino (writer_step a s) = tabela_destino s @ zs \<and>
           length zs + length (writer_next (writer_step a s)) \<le> length (writer_next s) \<and>
           set zs \<union> linha ` set (writer_next (writer_step a s)) \<subseteq> linha ` set (writer_next s)) \<and>
        total_registros s \<le> total_registros (writer_step a s) \<and>
        total_registros (writer_step a s) + length (writer_next (writer_step a s))
           \<le> total_registros s + length (writer_next s) \<and>
        writer_pc (writer_step a s) \<noteq> WGet"
  proof (cases "writer_pc s")
    case WTest
    then show ?thesis using f by (simp add: writer_step_def writer_next_def)
  next
    case WGet
    then obtain x q where q: "data_queue s = x # q" using g by (cases "data_queue s") auto
    show ?thesis
    proof (cases x)
      case STOP
      then show ?thesis using WGet q by (simp add: writer_step_def writer_next_def)
    next
      case (Item p h)
      then show ?thesis using WGet q by (simp add: writer_step_def writer_next_def)
    qed
  next
    case (WWrite p h)
    let ?w = "write_item a (tabela_destino s, total_registros s) (p, h)"
    obtain t n where w: "?w = Inl (t, n) \<or> ?w = Inr (t, n)"
      by (cases ?w) auto
    from write_item_grows [OF w]
    have gr: "t = tabela_destino s \<or> t = tabela_destino s @ [linha (p, h)]"
      "total_registros s \<le> n" "n \<le> total_registros s + 1"
      by blast+
    have st: "tabela_destino (writer_step a s) = t" "total_registros (writer_step a s) = n"
      "writer_pc (writer_step a s) = WTest \<or> writer_pc (writer_step a s) = WExit"
      using w WWrite by (auto simp: writer_step_def)
    have nx: "writer_next (writer_step a s) = []" using st(3) by (auto simp: writer_next_def)
    have ns: "writer_next s = [(p, h)]" using WWrite by (simp add: writer_next_def)
    have "\<exists>zs. t = tabela_destino s @ zs \<and> length zs \<le> 1 \<and> set zs \<subseteq> {linha (p, h)}"
      using gr(1)
    proof
      assume "t = tabela_destino s"
      then show ?thesis by (intro exI [of _ "[]"]) simp
    next
      assume "t = tabela_destino s @ [linha (p, h)]"
      then show ?thesis by (intro exI [of _ "[linha (p, h)]"]) simp
    qed
    then show ?thesis using st gr(2,3) nx ns by auto
  next
    case WExit
    then show ?thesis by (simp add: writer_step_def writer_next_def)
  qed
  then show
    "\<exists>zs. tabela_destino (writer_step a s) = tabela_destino s @ zs \<and>
           length zs + length (writer_next (writer_step a s)) \<le> length (writer_next s) \<and>
           set zs \<union> linha ` set (writer_next (writer_step a s)) \<subseteq> linha ` set (writer_next s)"
    "total_registros s \<le> total_registros (writer_step a s)"
    "total_registros (writer_step a s) + length (writer_next (writer_step a s))
           \<le> total_registros s + length (writer_next s)"
    "writer_pc (writer_step a s) \<noteq> WGet"
    by blast+
qed

lemma producer_step_next:
  assumes g: "writer_pc s = WGet \<longrightarrow> data_queue s \<noteq> []"
  shows "writer_next (producer_step lib r a s) = writer_next s"
    and "writer_pc (producer_step lib r a s) = WGet \<longrightarrow> data_queue (producer_step lib r a s) \<noteq> []"
proof -
  let ?n = "producer_step lib r a s"
  have pc: "writer_pc ?n = writer_pc s" using producer_step_other [of lib r a s] by simp
  have q: "data_queue s \<noteq> [] \<Longrightarrow> data_queue ?n \<noteq> [] \<and> hd (data_queue ?n) = hd (data_queue s)"
    using producer_step_queue [of lib r a s] put_head by metis
  show "writer_pc ?n = WGet \<longrightarrow> data_queue ?n \<noteq> []" using pc g q by simp
  show "writer_next ?n = writer_next s"
  proof (cases "writer_pc s = WGet")
    case True
    then show ?thesis using pc g q by (simp add: writer_next_hd)
  next
    case False
    then show ?thesis using pc by (simp add: writer_next_def split: writer_pc.splits)
  qed
qed

lemma exec_writer:
  assumes f: "stop_flag s" and g: "data_queue s \<noteq> []"
  shows "(\<exists>ys. tabela_destino (exec lib es s) = tabela_destino s @ ys \<and>
           length ys + length (writer_next (exec lib es s)) \<le> length (writer_next s) \<and>
           set ys \<union> linha ` set (writer_next (exec lib es s)) \<subseteq> linha ` set (writer_next s)) \<and>
     total_registros s \<le> total_registros (exec lib es s) \<and>
     total_registros (exec lib es s) + length (writer_next (exec lib es s))
       \<le> total_registros s + length (writer_next s)"
proof -
  let ?P = "\<lambda>x. stop_flag x \<and> (writer_pc x = WGet \<longrightarrow> data_queue x \<noteq> []) \<and>
     (\<exists>ys. tabela_destino x = tabela_destino s @ ys \<and>
           length ys + length (writer_next x) \<le> length (writer_next s) \<and>
           set ys \<union> linha ` set (writer_next x) \<subseteq> linha ` set (writer_next s)) \<and>
     total_registros s \<le> total_registros x \<and>
     total_registros x + length (writer_next x) \<le> total_registros s + length (writer_next s)"
  have "?P (exec lib es s)"
  proof (rule exec_invariant [where P = ?P])
    have "\<exists>ys. tabela_destino s = tabela_destino s @ ys \<and>
           length ys + length (writer_next s) \<le> length (writer_next s) \<and>
           set ys \<union> linha ` set (writer_next s) \<subseteq> linha ` set (writer_next s)"
      by (intro exI [of _ "[]"]) simp
    then show "?P s" using f g by simp
  next
    fix x :: etl_worker and e
    assume p: "?P x"
    then have xf: "stop_flag x" and xg: "writer_pc x = WGet \<longrightarrow> data_queue x \<noteq> []"
      and t1: "total_registros s \<le> total_registros x"
      and t2: "total_registros x + length (writer_next x) \<le> total_registros s + length (writer_next s)"
      by blast+
    from p obtain ys where ys: "tabela_destino x = tabela_destino s @ ys"
      "length ys + length (writer_next x) \<le> length (writer_next s)"
      "set ys \<union> linha ` set (writer_next x) \<subseteq> linha ` set (writer_next s)"
      by blast
    show "?P (step lib x e)"
    proof (cases e)
      case EvStop
      have k: "stop_flag (etl_stop x)" "tabela_destino (etl_stop x) = tabela_destino x"
        "total_registros (etl_stop x) = total_registros x" "data_queue (etl_stop x) \<noteq> []"
        using etl_stop_keeps [of x] by blast+
      have "\<exists>us. tabela_destino (etl_stop x) = tabela_destino s @ us \<and>
           length us + length (writer_next (etl_stop x)) \<le> length (writer_next s) \<and>
           set us \<union> linha ` set (writer_next (etl_stop x)) \<subseteq> linha ` set (writer_next s)"
        using ys k(2) etl_stop_next [of x] by (intro exI [of _ ys]) simp
      then show ?thesis using EvStop k t1 t2 etl_stop_next [of x] by simp
    next
      case (EvWriter a)
      from writer_step_flag(1) [OF xf xg, of a] obtain zs where zs:
        "tabela_destino (writer_step a x) = tabela_destino x @ zs"
        "length zs + length (writer_next (writer_step a x)) \<le> length (writer_next x)"
        "set zs \<union> linha ` set (writer_next (writer_step a x)) \<subseteq> linha ` set (writer_next x)"
        by blast
      have "\<exists>us. tabela_destino (writer_step a x) = tabela_destino s @ us \<and>
           length us + length (writer_next (writer_step a x)) \<le> length (writer_next s) \<and>
           set us \<union> linha ` set (writer_next (writer_step a x)) \<subseteq> linha ` set (writer_next s)"
      proof (intro exI [of _ "ys @ zs"] conjI)
        show "tabela_destino (writer_step a x) = tabela_destino s @ ys @ zs"
          using ys(1) zs(1) by simp
        show "length (ys @ zs) + length (writer_next (writer_step a x)) \<le> length (writer_next s)"
          using ys(2) zs(2) by simp
        have "set zs \<union> linha ` set (writer_next (writer_step a x)) \<subseteq> linha ` set (writer_next s)"
          using zs(3) ys(3) by blast
        then show "set (ys @ zs) \<union> linha ` set (writer_next (writer_step a x))
            \<subseteq> linha ` set (writer_next s)"
          using ys(3) by (simp only: set_append) blast
      qed
      moreover have "stop_flag (writer_step a x)" using xf writer_step_other [of a x] by simp
      ultimately show ?thesis
        using EvWriter writer_step_flag(2,3,4) [OF xf xg, of a] t1 t2 by simp
    next
      case (EvProducer r a)
      have o: "stop_flag (producer_step lib r a x)"
        "tabela_destino (producer_step lib r a x) = tabela_destino x"
        "total_registros (producer_step lib r a x) = total_registros x"
        using xf producer_step_other [of lib r a x] by simp_all
      have n: "writer_next (producer_step lib r a x) = writer_next x"
        "writer_pc (producer_step lib r a x) = WGet \<longrightarrow> data_queue (producer_step lib r a x) \<noteq> []"
        using producer_step_next [OF xg, of lib r a] by blast+
      have "\<exists>us. tabela_destino (producer_step lib r a x) = tabela_destino s @ us \<and>
           length us + length (writer_next (producer_step lib r a x)) \<le> length (writer_next s) \<and>
           set us \<union> linha ` set (writer_next (producer_step lib r a x)) \<subseteq> linha ` set (writer_next s)"
        using ys o(2) n(1) by (intro exI [of _ ys]) simp
      then show ?thesis using EvProducer o n t1 t2 by simp
    qed
  qed
  then show ?thesis by blast
qed

text \<open>\<open>run\<close> under the flag: it finishes the page in progress and starts no other.\<close>

lemma producer_step_pages:
  assumes f: "stop_flag s"
  shows "current_page s \<le> current_page (producer_step lib r a s)"
    and "current_page (producer_step lib r a s) + page_pending (producer_step lib r a s)
           \<le> current_page s + page_pending s"
    and "quiet (producer_pc s) \<Longrightarrow>
           data_items (data_queue (producer_step lib r a s)) = data_items (data_queue s)"
  using f
  by (auto simp: producer_step_def after_loop_def finish_def marca_erro_def page_pending_def
      quiet_def put_data_items
      split: producer_pc.splits list.splits option.splits page_result.splits sum.splits prod.splits)

lemma quiet_pending: "quiet (producer_pc s) = (page_pending s = 0)"
  by (simp add: page_pending_def)

lemma exec_pages:
  assumes f: "stop_flag s"
  shows "current_page s \<le> current_page (exec lib es s) \<and>
     current_page (exec lib es s) + page_pending (exec lib es s) \<le> current_page s + page_pending s \<and>
     (quiet (producer_pc s) \<longrightarrow>
        set (data_items (data_queue (exec lib es s))) \<subseteq> set (data_items (data_queue s)))"
proof -
  let ?P = "\<lambda>x. stop_flag x \<and> current_page s \<le> current_page x \<and>
     current_page x + page_pending x \<le> current_page s + page_pending s \<and>
     (quiet (producer_pc s) \<longrightarrow> set (data_items (data_queue x)) \<subseteq> set (data_items (data_queue s)))"
  have "?P (exec lib es s)"
  proof (rule exec_invariant [where P = ?P])
    show "?P s" using f by simp
  next
    fix x :: etl_worker and e
    assume p: "?P x"
    then have xf: "stop_flag x" and c1: "current_page s \<le> current_page x"
      and c2: "current_page x + page_pending x \<le> current_page s + page_pending s"
      and q: "quiet (producer_pc s) \<longrightarrow> set (data_items (data_queue x)) \<subseteq> set (data_items (data_queue s))"
      by blast+
    have qx: "quiet (producer_pc s) \<Longrightarrow> quiet (producer_pc x)"
      using c1 c2 by (simp add: quiet_pending)
    show "?P (step lib x e)"
    proof (cases e)
      case EvStop
      have "page_pending (etl_stop x) = page_pending x"
        using etl_stop_keeps [of x] by (simp add: page_pending_def)
      then show ?thesis using EvStop etl_stop_keeps [of x] c1 c2 q by simp
    next
      case (EvWriter a)
      have "page_pending (writer_step a x) = page_pending x"
        using writer_step_other [of a x] by (simp add: page_pending_def)
      moreover have "quiet (producer_pc s) \<longrightarrow>
          set (data_items (data_queue (writer_step a x))) \<subseteq> set (data_items (data_queue s))"
        using q writer_step_queue [of a x] by blast
      ultimately show ?thesis using EvWriter writer_step_other [of a x] xf c1 c2 by simp
    next
      case (EvProducer r a)
      have "quiet (producer_pc s) \<longrightarrow>
          set (data_items (data_queue (producer_step lib r a x))) \<subseteq> set (data_items (data_queue s))"
        using q qx producer_step_pages(3) [OF xf, of lib r a] by simp
      moreover have "stop_flag (producer_step lib r a x)"
        using xf producer_step_other [of lib r a x] by simp
      ultimately show ?thesis
        using EvProducer producer_step_pages(1,2) [OF xf, of lib r a] c1 c2 by simp
    qed
  qed
  then show ?thesis by blast
qed

text \<open>How \<open>run\<close> ends under the flag.\<close>

lemma producer_step_status:
  assumes f: "stop_flag s"
  shows "status (producer_step lib r a s) = status s \<or>
         (producer_pc (producer_step lib r a s) = PEnd \<and>
          (status (producer_step lib r a s) = StatusCancelado \<or>
           status (producer_step lib r a s) = StatusErro))"
    and "producer_pc s = PEnd \<Longrightarrow> producer_step lib r a s = s"
    and "\<not> in_request (producer_pc s) \<Longrightarrow> \<not> in_request (producer_pc (producer_step lib r a s))"
    and "\<not> in_request (producer_pc s) \<Longrightarrow> a = Gravado \<Longrightarrow>
         producer_pc (producer_step lib r a s) = PEnd \<Longrightarrow>
         producer_pc s = PEnd \<or> status (producer_step lib r a s) = StatusCancelado"
  using f
  by (auto simp: producer_step_def after_loop_def finish_def marca_erro_def in_request_def
      split: producer_pc.splits list.splits option.splits page_result.splits sum.splits prod.splits
        if_splits)

lemma exec_status:
  assumes f: "stop_flag s"
  shows "(producer_pc s = PEnd \<longrightarrow> producer_pc (exec lib es s) = PEnd \<and> status (exec lib es s) = status s) \<and>
     (status (exec lib es s) = status s \<or>
      (producer_pc (exec lib es s) = PEnd \<and>
       (status (exec lib es s) = StatusCancelado \<or> status (exec lib es s) = StatusErro)))"
proof -
  let ?P = "\<lambda>x. stop_flag x \<and>
     (producer_pc s = PEnd \<longrightarrow> producer_pc x = PEnd \<and> status x = status s) \<and>
     (status x = status s \<or>
      (producer_pc x = PEnd \<and> (status x = StatusCancelado \<or> status x = StatusErro)))"
  have "?P (exec lib es s)"
  proof (rule exec_invariant [where P = ?P])
    show "?P s" using f by simp
  next
    fix x :: etl_worker and e
    assume p: "?P x"
    then have xf: "stop_flag x" by blast
    show "?P (step lib x e)"
    proof (cases e)
      case EvStop
      then show ?thesis using p etl_stop_keeps [of x] by simp
    next
      case (EvWriter a)
      then show ?thesis using p writer_step_other [of a x] by simp
    next
      case (EvProducer r a)
      show ?thesis
      proof (cases "producer_pc x = PEnd")
        case True
        then have "producer_step lib r a x = x" using producer_step_status(2) [OF xf] by simp
        then show ?thesis using EvProducer p by simp
      next
        case False
        then have "status x = status s" and "producer_pc s \<noteq> PEnd" using p by blast+
        moreover have "stop_flag (producer_step lib r a x)"
          using xf producer_step_other [of lib r a x] by simp
        ultimately show ?thesis
          using EvProducer producer_step_status(1) [OF xf, of lib r a] by auto
      qed
    qed
  qed
  then show ?thesis by blast
qed

lemma exec_cancelado:
  assumes f: "stop_flag s" and n: "\<not> in_request (producer_pc s)"
    and u: "\<forall>e\<in>set es. update_taken e"
  shows "producer_pc (exec lib es s) = PEnd \<longrightarrow>
     producer_pc s = PEnd \<or> status (exec lib es s) = StatusCancelado"
proof -
  let ?P = "\<lambda>x. stop_flag x \<and> \<not> in_request (producer_pc x) \<and>
     (producer_pc x = PEnd \<longrightarrow> producer_pc s = PEnd \<or> status x = StatusCancelado)"
  have "?P (exec lib es s)"
  proof (rule exec_invariant [where P = ?P])
    show "?P s" using f n by simp
  next
    fix x :: etl_worker and e
    assume e: "e \<in> set es" and p: "?P x"
    then have xf: "stop_flag x" and xn: "\<not> in_request (producer_pc x)" by blast+
    show "?P (step lib x e)"
    proof (cases e)
      case EvStop
      then show ?thesis using p etl_stop_keeps [of x] by simp
    next
      case (EvWriter a)
      then show ?thesis using p writer_step_other [of a x] by simp
    next
      case (EvProducer r a)
      then have a: "a = Gravado" using u e by (auto simp: update_taken_def)
      show ?thesis
      proof (cases "producer_pc x = PEnd")
        case True
        then have "producer_step lib r a x = x" using producer_step_status(2) [OF xf] by simp
        then show ?thesis using EvProducer p by simp
      next
        case False
        have "stop_flag (producer_step lib r a x)"
          using xf producer_step_other [of lib r a x] by simp
        then show ?thesis
          using EvProducer False producer_step_status(3) [OF xf xn, of lib r a]
            producer_step_status(4) [OF xf xn a, of lib r]
          by auto
      qed
    qed
  qed
  then show ?thesis by blast
qed

text \<open>\<open>run\<close> comes to its end under the flag, within the steps counted by \<open>passos_restantes\<close>.\<close>

lemma producer_step_passos:
  assumes f: "stop_flag s" and n: "\<not> in_request (producer_pc s)"
  shows "passos_restantes (producer_pc (producer_step lib r a s))
           \<le> passos_restantes (producer_pc s) - 1"
  using f n
  by (auto simp: producer_step_def after_loop_def finish_def marca_erro_def in_request_def
      passos_restantes_def
      split: producer_pc.splits list.splits option.splits page_result.splits sum.splits prod.splits)

lemma passos_zero:
  "passos_restantes pc = 0 \<Longrightarrow> \<not> in_request pc \<Longrightarrow> pc = PEnd"
  by (cases pc) (simp_all add: passos_restantes_def in_request_def)

lemma exec_passos:
  "stop_flag s \<Longrightarrow> \<not> in_request (producer_pc s) \<Longrightarrow>
   \<not> in_request (producer_pc (exec lib es s)) \<and>
   passos_restantes (producer_pc (exec lib es s))
     \<le> passos_restantes (producer_pc s) - length (filter is_producer es)"
proof (induction es arbitrary: s)
  case Nil
  then show ?case by (simp add: exec_def)
next
  case (Cons e es)
  let ?n = "step lib s e"
  have nf: "stop_flag ?n" using Cons.prems(1) by (rule step_flag)
  have ex: "exec lib (e # es) s = exec lib es ?n" by (rule exec_Cons)
  show ?case
  proof (cases "is_producer e")
    case False
    then have "e = EvStop \<or> (\<exists>a. e = EvWriter a)" by (cases e) (simp_all add: is_producer_def)
    then have pc: "producer_pc ?n = producer_pc s"
      using etl_stop_keeps [of s] writer_step_other by auto
    then have "\<not> in_request (producer_pc ?n)" using Cons.prems(2) by simp
    from Cons.IH [OF nf this] show ?thesis unfolding ex using False pc by simp
  next
    case True
    then obtain r a where e: "e = EvProducer r a" by (cases e) (simp_all add: is_producer_def)
    have ni: "\<not> in_request (producer_pc ?n)"
      using e producer_step_status(3) [OF Cons.prems, of lib r a] by simp
    have d: "passos_restantes (producer_pc ?n) \<le> passos_restantes (producer_pc s) - 1"
      using e producer_step_passos [OF Cons.prems, of lib r a] by simp
    from Cons.IH [OF nf ni]
    have i: "\<not> in_request (producer_pc (exec lib es ?n))"
      "passos_restantes (producer_pc (exec lib es ?n))
         \<le> passos_restantes (producer_pc ?n) - length (filter is_producer es)"
      by blast+
    have l: "length (filter is_producer (e # es)) = Suc (length (filter is_producer es))"
      using True by simp
    have "passos_restantes (producer_pc (exec lib es ?n))
        \<le> passos_restantes (producer_pc s) - length (filter is_producer (e # es))"
      unfolding l using i(2) d by arith
    then show ?thesis unfolding ex using i(1) by blast
  qed
qed



end
